theory Spec2Isabelle
  imports Main "HOL-Library.Word"
begin

unbundle bit_operations_syntax

section \<open>Constants of the search\<close>

text \<open>
  \<^verbatim>\<open>search.c\<close> includes \<^verbatim>\<open>types.h\<close>, \<^verbatim>\<open>search.h\<close>, \<^verbatim>\<open>transposition.h\<close> and
  \<^verbatim>\<open>evaluate.h\<close>, which declare the numeric constants and tables it reads. They are
  parameters of the model, collected in one record. C \<^verbatim>\<open>int\<close> values are modelled as
  \<^typ>\<open>int\<close>: in the search, scores stay within \<open>[-MATE, MATE]\<close> and heights within
  \<open>[0, MAX_PLY]\<close>, where 32-bit arithmetic does not wrap (\<open>score_shift_in_range\<close>
  below). The functions that take any \<^verbatim>\<open>int\<close> as a score or a threshold
  (\<^verbatim>\<open>valueToTT\<close>, \<^verbatim>\<open>valueFromTT\<close>, \<^verbatim>\<open>thisTacticalMoveValue\<close> and
  \<^verbatim>\<open>staticExchangeEvaluation\<close>) compute with \<open>int32\<close>, the wrap-around of 32-bit
  two's complement arithmetic.
  Tables indexed by the flag \<^verbatim>\<open>improving\<close> take a \<^typ>\<open>bool\<close>; tables indexed by a piece
  type take a \<^typ>\<open>nat\<close>.
\<close>

record params =
  MATE :: int
  MAX_PLY :: int
  VALUE_NONE :: int
  SEEPieceValues :: "nat \<Rightarrow> int"
  RazorDepth :: int
  RazorMargin :: int
  BetaPruningDepth :: int
  BetaMargin :: int
  NullMovePruningDepth :: int
  ProbCutDepth :: int
  ProbCutMargin :: int
  FutilityMargin :: int
  FutilityPruningDepth :: int
  FutilityPruningHistoryLimit :: "bool \<Rightarrow> int"
  LateMovePruningDepth :: int
  LateMovePruningCounts :: "bool \<Rightarrow> int \<Rightarrow> int"
  CounterMovePruningDepth :: "bool \<Rightarrow> int"
  CounterMoveHistoryLimit :: "bool \<Rightarrow> int"
  FollowUpMovePruningDepth :: "bool \<Rightarrow> int"
  FollowUpMoveHistoryLimit :: "bool \<Rightarrow> int"
  SEEPruningDepth :: int
  SEENoisyMargin :: int
  SEEQuietMargin :: int
  QFutilityMargin :: int
  QSEEMargin :: int
  LMRTable :: "int \<Rightarrow> int \<Rightarrow> int"
  WindowSize :: int
  WindowDepth :: int

text \<open>The macros \<^verbatim>\<open>MATE_IN_MAX = MATE - MAX_PLY\<close> and \<^verbatim>\<open>MATED_IN_MAX = -MATE_IN_MAX\<close>.\<close>

definition MATE_IN_MAX :: "params \<Rightarrow> int" where
  "MATE_IN_MAX P = MATE P - MAX_PLY P"

definition MATED_IN_MAX :: "params \<Rightarrow> int" where
  "MATED_IN_MAX P = - MATE_IN_MAX P"

text \<open>
  The value of an integer as a 32-bit two's complement \<^verbatim>\<open>int\<close>: the result of a C
  operation on \<^verbatim>\<open>int\<close> values is \<open>int32\<close> of the exact result.
\<close>

definition int32 :: "int \<Rightarrow> int" where
  "int32 x = (x + 2 ^ 31) mod 2 ^ 32 - 2 ^ 31"

section \<open>Score helpers\<close>

definition valueFromTT :: "params \<Rightarrow> int \<Rightarrow> int \<Rightarrow> int" where
  "valueFromTT P v height =
     (if v \<ge> MATE_IN_MAX P then int32 (v - height)
      else if v \<le> MATED_IN_MAX P then int32 (v + height)
      else v)"

definition valueToTT :: "params \<Rightarrow> int \<Rightarrow> int \<Rightarrow> int" where
  "valueToTT P v height =
     (if v \<ge> MATE_IN_MAX P then int32 (v + height)
      else if v \<le> MATED_IN_MAX P then int32 (v - height)
      else v)"

section \<open>Boards\<close>

text \<open>
  The board of \<^verbatim>\<open>board.h\<close>, with the fields \<^verbatim>\<open>search.c\<close> reads: one bitboard per
  piece type and per colour, the piece on each square, the side to move, the en-passant
  square, the bitboard of pieces giving check, and the position hash.
  Modelled from the spec: \<^verbatim>\<open>types.h\<close> is absent; piece types are numbered in the order
  \<open>P < N < B < R < Q < K\<close> that the loops of \<^verbatim>\<open>search.c\<close> walk, and a colour is
  one of \<open>WHITE\<close> and \<open>BLACK\<close>, with \<^verbatim>\<open>!colour\<close> the other colour.
\<close>

type_synonym bitboard = "64 word"

datatype colour_t = WHITE | BLACK

record Board =
  squares :: "nat \<Rightarrow> nat"
  pieces :: "nat \<Rightarrow> bitboard"
  colours :: "colour_t \<Rightarrow> bitboard"
  turn :: colour_t
  epSquare :: nat
  kingAttackers :: bitboard
  hash :: "64 word"

definition PAWN :: nat where "PAWN = 0"
definition KNIGHT :: nat where "KNIGHT = 1"
definition BISHOP :: nat where "BISHOP = 2"
definition ROOK :: nat where "ROOK = 3"
definition QUEEN :: nat where "QUEEN = 4"
definition KING :: nat where "KING = 5"

text \<open>C's \<^verbatim>\<open>!colour\<close>.\<close>

fun cnot :: "colour_t \<Rightarrow> colour_t" where
  "cnot WHITE = BLACK"
| "cnot BLACK = WHITE"

text \<open>
  Modelled from the spec: \<^verbatim>\<open>bitboards.h\<close> is absent; \<^verbatim>\<open>RANK_2\<close> and \<^verbatim>\<open>RANK_7\<close> are the
  second and seventh rank, squares 8 to 15 and 48 to 55.
\<close>

definition RANK_2 :: bitboard where "RANK_2 = 0x000000000000FF00"
definition RANK_7 :: bitboard where "RANK_7 = 0x00FF000000000000"

section \<open>The best tactical move value\<close>

text \<open>
  The loop \<^verbatim>\<open>for (piece = QUEEN; piece > PAWN; piece--)\<close> of \<^verbatim>\<open>bestTacticalMoveValue\<close>,
  started at \<open>piece\<close> with the current \<open>value\<close>: the first piece type, from \<open>piece\<close> down
  to the knight, of which the enemy has a piece gives its value and ends the loop.
\<close>

fun strongestTarget :: "params \<Rightarrow> Board \<Rightarrow> bitboard \<Rightarrow> int \<Rightarrow> nat \<Rightarrow> int" where
  "strongestTarget P board targets val 0 = val"
| "strongestTarget P board targets val (Suc piece) =
     (if targets AND pieces board (Suc piece) \<noteq> 0
      then SEEPieceValues P (Suc piece)
      else strongestTarget P board targets val piece)"

definition promotionRank :: "Board \<Rightarrow> bitboard" where
  "promotionRank board = (if turn board = WHITE then RANK_7 else RANK_2)"

definition bestTacticalMoveValue :: "params \<Rightarrow> Board \<Rightarrow> int" where
  "bestTacticalMoveValue P board =
     (let val = SEEPieceValues P PAWN;
          targets = colours board (cnot (turn board));
          val = strongestTarget P board targets val QUEEN
      in if pieces board PAWN AND colours board (turn board) AND promotionRank board \<noteq> 0
         then val + (SEEPieceValues P QUEEN - SEEPieceValues P PAWN)
         else val)"

text \<open>Whether the side not to move has a piece of type \<open>t\<close>.\<close>

definition enemyHas :: "Board \<Rightarrow> nat \<Rightarrow> bool" where
  "enemyHas board t = (colours board (cnot (turn board)) AND pieces board t \<noteq> 0)"

text \<open>The bonus for a pawn of the side to move on its seventh rank.\<close>

definition promoBonus :: "params \<Rightarrow> Board \<Rightarrow> int" where
  "promoBonus P board =
     (if pieces board PAWN AND colours board (turn board) AND promotionRank board \<noteq> 0
      then SEEPieceValues P QUEEN - SEEPieceValues P PAWN else 0)"

text \<open>
  The specification's wording of the same function: the value of the strongest enemy
  piece present (the enemy piece of greatest value, over all six piece types), plus
  \<open>value(queen) - value(pawn)\<close> if the side to move has a pawn on its seventh rank.
\<close>

definition enemyPieceTypes :: "Board \<Rightarrow> nat list" where
  "enemyPieceTypes board =
     filter (\<lambda>t. colours board (cnot (turn board)) AND pieces board t \<noteq> 0) [0..<6]"

definition spec_strongestEnemyValue :: "params \<Rightarrow> Board \<Rightarrow> int" where
  "spec_strongestEnemyValue P board =
     (case map (SEEPieceValues P) (enemyPieceTypes board) of
        [] \<Rightarrow> 0
      | v # vs \<Rightarrow> fold max vs v)"

definition spec_bestTacticalMoveValue :: "params \<Rightarrow> Board \<Rightarrow> int" where
  "spec_bestTacticalMoveValue P board =
     spec_strongestEnemyValue P board +
     (if pieces board PAWN AND colours board (turn board) AND promotionRank board \<noteq> 0
      then SEEPieceValues P QUEEN - SEEPieceValues P PAWN else 0)"

section \<open>Moves and the board library\<close>

text \<open>
  A move is a 16-bit value. The macros that unpack it (\<^verbatim>\<open>move.h\<close>), the piece encoding
  (\<^verbatim>\<open>types.h\<close>) and the attack generators (\<^verbatim>\<open>attacks.h\<close>) are not part of
  \<^verbatim>\<open>search.c\<close>; they are parameters of the model.
\<close>

type_synonym move = "16 word"

datatype movetype = NORMAL_MOVE | CASTLE_MOVE | ENPASS_MOVE | PROMOTION_MOVE

record boardlib =
  MoveFrom :: "move \<Rightarrow> nat"
  MoveTo :: "move \<Rightarrow> nat"
  MoveType :: "move \<Rightarrow> movetype"
  MovePromoPiece :: "move \<Rightarrow> nat"
  pieceType :: "nat \<Rightarrow> nat"
  EMPTY :: nat
  allAttackersToSquare :: "Board \<Rightarrow> bitboard \<Rightarrow> nat \<Rightarrow> bitboard"
  bishopAttacks :: "nat \<Rightarrow> bitboard \<Rightarrow> bitboard"
  rookAttacks :: "nat \<Rightarrow> bitboard \<Rightarrow> bitboard"

text \<open>
  \<^verbatim>\<open>getlsb\<close> is the index of the lowest set bit. On the empty bitboard the C primitive is
  undefined; here it gives 64, and the callers below check for the empty bitboard first.
\<close>

definition getlsb :: "bitboard \<Rightarrow> nat" where
  "getlsb bb = length (takeWhile (\<lambda>n. \<not> bit bb n) [0..<64])"

text \<open>The bitboard \<^verbatim>\<open>1ull << sq\<close>.\<close>

definition sqbit :: "nat \<Rightarrow> bitboard" where
  "sqbit sq = push_bit sq 1"

section \<open>Tactical moves\<close>

definition moveIsTactical :: "boardlib \<Rightarrow> Board \<Rightarrow> move \<Rightarrow> bool" where
  "moveIsTactical G board m =
     (squares board (MoveTo G m) \<noteq> EMPTY G
      \<or> MoveType G m = PROMOTION_MOVE
      \<or> MoveType G m = ENPASS_MOVE)"

definition hasNonPawnMaterial :: "Board \<Rightarrow> colour_t \<Rightarrow> bool" where
  "hasNonPawnMaterial board side =
     (let friendly = colours board side;
          kings = pieces board KING;
          pawns = pieces board PAWN
      in (friendly AND (kings OR pawns)) \<noteq> friendly)"

definition thisTacticalMoveValue :: "params \<Rightarrow> boardlib \<Rightarrow> Board \<Rightarrow> move \<Rightarrow> int" where
  "thisTacticalMoveValue P G board m =
     (let val = SEEPieceValues P (pieceType G (squares board (MoveTo G m)));
          val = (if MoveType G m = PROMOTION_MOVE
                 then int32 (val + (SEEPieceValues P (MovePromoPiece G m)
                                    - SEEPieceValues P PAWN))
                 else val);
          val = (if MoveType G m = ENPASS_MOVE then int32 (val + SEEPieceValues P PAWN)
                 else val)
      in val)"

section \<open>Static exchange evaluation\<close>

text \<open>
  The state of the exchange loop of \<^verbatim>\<open>staticExchangeEvaluation\<close>: the side to capture
  next, the occupancy, the attackers of the target square that are still on the board, and
  the balance.
\<close>

record seeState =
  colour :: colour_t
  occupied :: bitboard
  attackers :: bitboard
  balance :: int

text \<open>
  \<^verbatim>\<open>for (nextVictim = PAWN; nextVictim <= QUEEN; nextVictim++) if (...) break;\<close>:
  the least piece type from pawn to queen among the attackers, and \<open>KING\<close> (the value of
  the counter after the loop) when there is none.
\<close>

definition weakestAttacker :: "Board \<Rightarrow> bitboard \<Rightarrow> nat" where
  "weakestAttacker board myAttackers =
     (case find (\<lambda>t. myAttackers AND pieces board t \<noteq> 0) [PAWN..<KING] of
        Some t \<Rightarrow> t
      | None \<Rightarrow> KING)"

text \<open>
  The outcome of an exchange: the colour left to move when the loop ends (that side
  loses), or \<open>Undefined\<close> when the loop asks \<^verbatim>\<open>getlsb\<close> for a bit of the empty
  bitboard, which happens only on a board whose colour bitboards hold a square that no
  piece bitboard holds.
\<close>

datatype seeOutcome = Loser colour_t | Undefined

text \<open>
  The attackers after a capture by a piece of type \<open>nextVictim\<close>, on the occupancy
  \<open>occ\<close> from which the capturing piece is already removed: a diagonal capture may reveal
  bishops and queens, a straight one rooks and queens, and pieces that left the
  occupancy are dropped.
\<close>

definition revealAttackers ::
  "boardlib \<Rightarrow> Board \<Rightarrow> nat \<Rightarrow> nat \<Rightarrow> bitboard \<Rightarrow> bitboard \<Rightarrow> bitboard" where
  "revealAttackers G board to nextVictim occ att0 =
     (let bishops = pieces board BISHOP OR pieces board QUEEN;
          rooks = pieces board ROOK OR pieces board QUEEN;
          att = att0;
          att = (if nextVictim = PAWN \<or> nextVictim = BISHOP \<or> nextVictim = QUEEN
                 then att OR (bishopAttacks G to occ AND bishops) else att);
          att = (if nextVictim = ROOK \<or> nextVictim = QUEEN
                 then att OR (rookAttacks G to occ AND rooks) else att)
      in att AND occ)"

text \<open>
  One pass through the body of \<^verbatim>\<open>while (1)\<close>: either the loop ends (\<open>Inl\<close>), or the pass
  gives the state for the next one (\<open>Inr\<close>).
\<close>

definition seeStep ::
  "params \<Rightarrow> boardlib \<Rightarrow> Board \<Rightarrow> nat \<Rightarrow> seeState \<Rightarrow> seeOutcome + seeState" where
  "seeStep P G board to s =
     (let myAttackers = attackers s AND colours board (colour s)
      in if myAttackers = 0 then Inl (Loser (colour s))
         else
           let nextVictim = weakestAttacker board myAttackers;
               mine = myAttackers AND pieces board nextVictim
           in if mine = 0 then Inl Undefined
              else
                let occ = occupied s XOR sqbit (getlsb mine);
                    att = revealAttackers G board to nextVictim occ (attackers s);
                    col = cnot (colour s);
                    bal = int32 (- balance s - 1 - SEEPieceValues P nextVictim)
                in if bal \<ge> 0
                   then (if nextVictim = KING \<and> att AND colours board col \<noteq> 0
                         then Inl (Loser (cnot col))
                         else Inl (Loser col))
                   else Inr \<lparr> colour = col, occupied = occ, attackers = att, balance = bal \<rparr>)"

text \<open>
  Every pass removes one attacker from the occupancy, and from the second pass on the
  attackers are part of the occupancy, so the loop ends.
\<close>

definition seeMeasure :: "seeState \<Rightarrow> nat" where
  "seeMeasure s =
     (if attackers s AND occupied s = attackers s
      then card {n. bit (occupied s) n} else 65)"

lemma getlsb_bit:
  assumes "bb \<noteq> 0"
  shows "bit bb (getlsb bb)"
proof -
  from assms obtain n where n: "bit bb n"
    by (auto simp: bit_eq_iff)
  then have "n < 64"
    using bit_imp_le_length [of bb n] by simp
  then have "n \<in> set [0..<64]" by simp
  with n have ex: "\<exists>x \<in> set [0..<64]. \<not> (\<not> bit bb x)" by blast
  have neq: "takeWhile (\<lambda>n. \<not> bit bb n) [0..<64] \<noteq> [0..<64]"
    using ex unfolding takeWhile_eq_all_conv by blast
  have len: "length (takeWhile (\<lambda>n. \<not> bit bb n) [0..<64]) < length [0..<64]"
  proof (rule ccontr)
    assume "\<not> ?thesis"
    with length_takeWhile_le [of "\<lambda>n. \<not> bit bb n" "[0..<64]"]
    have "length (takeWhile (\<lambda>n. \<not> bit bb n) [0..<64]) = length [0..<64]"
      by linarith
    with takeWhile_eq_take [of "\<lambda>n. \<not> bit bb n" "[0..<64]"] neq
    show False by (simp del: upt_Suc)
  qed
  have "\<not> (\<not> bit bb ([0..<64] ! length (takeWhile (\<lambda>n. \<not> bit bb n) [0..<64])))"
    by (rule nth_length_takeWhile [OF len])
  moreover have "[0..<64] ! length (takeWhile (\<lambda>n. \<not> bit bb n) [0..<64])
                 = length (takeWhile (\<lambda>n. \<not> bit bb n) [0..<64])"
    using len by (simp del: upt_Suc)
  ultimately show ?thesis by (simp add: getlsb_def del: upt_Suc)
qed

lemma bits_clear:
  fixes x :: bitboard
  assumes "bit x n"
  shows "card {m. bit (x XOR sqbit n) m} < card {m. bit x m}"
proof -
  have n64: "n < 64" using bit_imp_le_length [OF assms] by simp
  have fin: "finite {m. bit x m}"
  proof (rule finite_subset)
    show "{m. bit x m} \<subseteq> {..<64}"
      using bit_imp_le_length [of x] by auto
  qed simp
  have "{m. bit (x XOR sqbit n) m} = {m. bit x m} - {n}"
    using n64 assms
    by (auto simp: sqbit_def bit_xor_iff bit_push_bit_iff bit_1_iff bit_exp_iff
             dest: bit_imp_le_length)
  moreover have "n \<in> {m. bit x m}" using assms by simp
  ultimately show ?thesis
    using card_Diff1_less [OF fin, of n] by simp
qed

lemma bits_le_64:
  fixes x :: bitboard
  shows "card {m. bit x m} \<le> 64"
proof -
  have "{m. bit x m} \<subseteq> {..<64}"
    using bit_imp_le_length [of x] by auto
  then have "card {m. bit x m} \<le> card {..<(64::nat)}"
    by (rule card_mono [rotated]) simp
  then show ?thesis by simp
qed

lemma seeStep_decreases:
  assumes "seeStep P G board to s = Inr s'"
  shows "seeMeasure s' < seeMeasure s"
proof -
  define my where "my = attackers s AND colours board (colour s)"
  define mine where "mine = my AND pieces board (weakestAttacker board my)"
  from assms have nz: "mine \<noteq> 0"
    by (auto simp: seeStep_def Let_def my_def mine_def split: if_splits)
  from assms have occ: "occupied s' = occupied s XOR sqbit (getlsb mine)"
    by (auto simp: seeStep_def Let_def my_def mine_def split: if_splits)
  from assms have "\<exists>a. attackers s' = a AND occupied s'"
    by (auto simp: seeStep_def revealAttackers_def Let_def my_def mine_def split: if_splits)
  then have inv': "attackers s' AND occupied s' = attackers s'"
    by (auto simp: and.assoc)
  have hit: "bit mine (getlsb mine)" by (rule getlsb_bit [OF nz])
  show ?thesis
  proof (cases "attackers s AND occupied s = attackers s")
    case True
    from hit have "bit (attackers s) (getlsb mine)"
      by (simp add: mine_def my_def bit_and_iff)
    with True have "bit (occupied s) (getlsb mine)"
      by (metis bit_and_iff)
    from bits_clear [OF this] True inv' occ show ?thesis
      by (simp add: seeMeasure_def)
  next
    case False
    with inv' bits_le_64 [of "occupied s'"] show ?thesis
      by (simp add: seeMeasure_def)
  qed
qed

function seeLoop ::
  "params \<Rightarrow> boardlib \<Rightarrow> Board \<Rightarrow> nat \<Rightarrow> seeState \<Rightarrow> seeOutcome" where
  "seeLoop P G board to s =
     (case seeStep P G board to s of
        Inl r \<Rightarrow> r
      | Inr s' \<Rightarrow> seeLoop P G board to s')"
  by pat_completeness auto
termination
  by (relation "measure (\<lambda>(P, G, board, to, s). seeMeasure s)")
     (auto simp: seeStep_decreases)

declare seeLoop.simps [simp del]

text \<open>
  \<^verbatim>\<open>staticExchangeEvaluation\<close>: \<open>Some True\<close> for 1, \<open>Some False\<close> for 0, \<open>None\<close> when the
  exchange loop is undefined.
\<close>

definition staticExchangeEvaluation ::
  "params \<Rightarrow> boardlib \<Rightarrow> Board \<Rightarrow> move \<Rightarrow> int \<Rightarrow> bool option" where
  "staticExchangeEvaluation P G board m threshold =
     (let from = MoveFrom G m;
          to = MoveTo G m;
          type = MoveType G m;
          ptype = MovePromoPiece G m;
          nextVictim = (if type \<noteq> PROMOTION_MOVE
                        then pieceType G (squares board from) else ptype);
          bal = int32 (thisTacticalMoveValue P G board m - threshold)
      in if bal < 0 then Some False
         else
           let bal = int32 (bal - SEEPieceValues P nextVictim)
           in if bal \<ge> 0 then Some True
              else
                let occ = colours board WHITE OR colours board BLACK;
                    occ = (occ XOR sqbit from) OR sqbit to;
                    occ = (if type = ENPASS_MOVE then occ XOR sqbit (epSquare board) else occ);
                    att = allAttackersToSquare G board occ to AND occ
                in case seeLoop P G board to
                          \<lparr> colour = cnot (turn board), occupied = occ,
                            attackers = att, balance = bal \<rparr> of
                     Undefined \<Rightarrow> None
                   | Loser c \<Rightarrow> Some (turn board \<noteq> c))"

section \<open>The search state and its collaborators\<close>

text \<open>
  The fields of \<^verbatim>\<open>Thread\<close> that \<^verbatim>\<open>search.c\<close> reads and writes itself, and one field
  \<open>ext\<close> for everything it only hands on: the transposition table, the history tables,
  the pawn-king cache, the undo stack, the clock and the abort and ponder flags. The
  stacks are functions of the height; \<^verbatim>\<open>killers[h]\<close> is a pair.
\<close>

record 'x Thread =
  board :: Board
  seldepth :: int
  nodes :: int
  tbhits :: int
  evalStack :: "int \<Rightarrow> int"
  moveStack :: "int \<Rightarrow> move"
  killers :: "int \<Rightarrow> move \<times> move"
  ext :: 'x

text \<open>
  Bounds of transposition-table entries. \<^verbatim>\<open>search.c\<close> tests them with \<^verbatim>\<open>==\<close> and with
  \<^verbatim>\<open>ttBound & BOUND_LOWER\<close>, \<^verbatim>\<open>ttBound & BOUND_UPPER\<close>; an exact bound is both a lower
  and an upper bound, and the initial value 0 of \<^verbatim>\<open>ttBound\<close> is neither.
\<close>

datatype bound = BOUND_NONE | BOUND_LOWER | BOUND_UPPER | BOUND_EXACT

fun hasLower :: "bound \<Rightarrow> bool" where
  "hasLower BOUND_LOWER = True"
| "hasLower BOUND_EXACT = True"
| "hasLower _ = False"

fun hasUpper :: "bound \<Rightarrow> bool" where
  "hasUpper BOUND_UPPER = True"
| "hasUpper BOUND_EXACT = True"
| "hasUpper _ = False"

record ttEntry =
  entryMove :: move
  entryValue :: int
  entryEval :: int
  entryDepth :: int
  entryBound :: bound

datatype tbresult = TB_LOSS | TB_WIN | TB_DRAW | TB_RESULT_FAILED

text \<open>
  The functions \<^verbatim>\<open>search.c\<close> calls and does not define, as parameters: \<open>'x\<close> is the
  state they keep, \<open>'p\<close> the move picker. A function that changes the thread returns
  the new one. \<open>abortRequested\<close> is the test
  \<^verbatim>\<open>ABORT_SIGNAL || (terminateSearchEarly(thread) && !IS_PONDERING)\<close>,
  \<open>pastGoodNoisy\<close> the test \<^verbatim>\<open>movePicker.stage > STAGE_GOOD_NOISY\<close>, and
  \<open>reportBounds\<close> the statement
  \<^verbatim>\<open>if (mainThread && elapsedTime(thread->info) >= WindowTimerMS) uciReport(...)\<close>.
\<close>

record ('x, 'p) extern =
  NONE_MOVE :: move
  NULL_MOVE :: move
  abortRequested :: "'x Thread \<Rightarrow> bool"
  boardIsDrawn :: "Board \<Rightarrow> int \<Rightarrow> bool"
  evaluateBoard :: "'x Thread \<Rightarrow> int \<times> 'x Thread"
  getTTEntry :: "'x Thread \<Rightarrow> 64 word \<Rightarrow> ttEntry option"
  storeTTEntry :: "'x Thread \<Rightarrow> 64 word \<Rightarrow> move \<Rightarrow> int \<Rightarrow> int \<Rightarrow> int \<Rightarrow> bound \<Rightarrow> 'x Thread"
  tablebasesProbeWDL :: "Board \<Rightarrow> int \<Rightarrow> int \<Rightarrow> tbresult"
  applyMove :: "'x Thread \<Rightarrow> move \<Rightarrow> int \<Rightarrow> bool \<times> 'x Thread"
  revertMove :: "'x Thread \<Rightarrow> move \<Rightarrow> int \<Rightarrow> 'x Thread"
  initMovePicker :: "'x Thread \<Rightarrow> move \<Rightarrow> int \<Rightarrow> 'p"
  initNoisyMovePicker :: "'x Thread \<Rightarrow> int \<Rightarrow> 'p"
  selectNextMove :: "'p \<Rightarrow> 'x Thread \<Rightarrow> bool \<Rightarrow> move \<times> 'p"
  pastGoodNoisy :: "'p \<Rightarrow> bool"
  killer1 :: "'p \<Rightarrow> move"
  killer2 :: "'p \<Rightarrow> move"
  counter :: "'p \<Rightarrow> move"
  getHistory :: "'x Thread \<Rightarrow> move \<Rightarrow> int \<Rightarrow> int \<times> int \<times> int"
  updateHistoryHeuristics :: "'x Thread \<Rightarrow> move list \<Rightarrow> int \<Rightarrow> int \<Rightarrow> int \<Rightarrow> 'x Thread"
  reportBounds :: "'x Thread \<Rightarrow> int \<Rightarrow> int \<Rightarrow> int \<Rightarrow> 'x Thread"

text \<open>
  What a call of \<^verbatim>\<open>search\<close>, \<^verbatim>\<open>qsearch\<close> or \<^verbatim>\<open>moveIsSingular\<close> comes to: it returns a
  value, or it stops without one: it leaves through \<^verbatim>\<open>longjmp\<close>, or the model ran out
  of fuel (the move pickers are parameters, and nothing here says that they ever answer
  \<^verbatim>\<open>NONE_MOVE\<close>), or it asked for an exchange evaluation that is undefined. A principal
  variation is the list of its moves.
\<close>

datatype stop = Longjmp | OutOfFuel | UndefinedExchange

datatype 'a outcome = Value (result: 'a) | Stop (reason: stop)

type_synonym 'x searched = "(int \<times> move list \<times> 'x Thread) outcome"

type_synonym 'x qsearchfn = "'x Thread \<Rightarrow> int \<Rightarrow> int \<Rightarrow> int \<Rightarrow> 'x searched"

type_synonym 'x searchfn = "'x Thread \<Rightarrow> int \<Rightarrow> int \<Rightarrow> int \<Rightarrow> int \<Rightarrow> 'x searched"

text \<open>C's integer division, which truncates towards zero.\<close>

definition cdiv :: "int \<Rightarrow> int \<Rightarrow> int" where
  "cdiv a b = (if (a < 0) = (b < 0) then \<bar>a\<bar> div \<bar>b\<bar> else - (\<bar>a\<bar> div \<bar>b\<bar>))"

text \<open>
  The probe of the transposition table and the cutoff test that \<^verbatim>\<open>search\<close>,
  \<^verbatim>\<open>qsearch\<close> and the tablebase step share.
\<close>

definition boundCuts :: "bound \<Rightarrow> int \<Rightarrow> int \<Rightarrow> int \<Rightarrow> bool" where
  "boundCuts b v alpha beta =
     (b = BOUND_EXACT \<or> (b = BOUND_LOWER \<and> v \<ge> beta) \<or> (b = BOUND_UPPER \<and> v \<le> alpha))"

text \<open>
  A loop whose body either leaves it with a result or gives the state for the next pass,
  run with fuel: every pass uses one unit.
\<close>

primrec loopFuel :: "('s \<Rightarrow> 'r outcome + 's) \<Rightarrow> nat \<Rightarrow> 's \<Rightarrow> 'r outcome" where
  "loopFuel body 0 s = Stop OutOfFuel"
| "loopFuel body (Suc n) s = (case body s of Inl r \<Rightarrow> r | Inr s' \<Rightarrow> loopFuel body n s')"

text \<open>
  The static evaluation of a node: the evaluation stored in the table entry when there is
  a hit and the entry holds one, and \<^verbatim>\<open>evaluateBoard\<close> otherwise.
\<close>

definition staticEval ::
  "params \<Rightarrow> ('x, 'p) extern \<Rightarrow> ttEntry option \<Rightarrow> 'x Thread \<Rightarrow> int \<times> 'x Thread" where
  "staticEval P E tt th =
     (case tt of
        None \<Rightarrow> evaluateBoard E th
      | Some e \<Rightarrow> if entryEval e \<noteq> VALUE_NONE P then (entryEval e, th)
                  else evaluateBoard E th)"

section \<open>Quiescence search\<close>

text \<open>The variables of \<^verbatim>\<open>qsearch\<close> that its move loop changes.\<close>

record ('x, 'p) qstate =
  qPicker :: 'p
  qThread :: "'x Thread"
  qAlpha :: int
  qBest :: int
  qPv :: "move list"
  qLpv :: "move list"

text \<open>
  One pass through the loop of step 7 of \<^verbatim>\<open>qsearch\<close>, with \<open>Q\<close> for the recursive
  call: \<open>Inl\<close> when the pass leaves \<^verbatim>\<open>qsearch\<close>, \<open>Inr\<close> with the variables for the
  next pass otherwise.
\<close>

definition qsearchStep ::
  "('x, 'p) extern \<Rightarrow> 'x qsearchfn \<Rightarrow> int \<Rightarrow> int \<Rightarrow> ('x, 'p) qstate
     \<Rightarrow> 'x searched + ('x, 'p) qstate" where
  "qsearchStep E Q beta height st =
     (case selectNextMove E (qPicker st) (qThread st) True of (m, mp) \<Rightarrow>
        if m = NONE_MOVE E then Inl (Value (qBest st, qPv st, qThread st))
        else
          case applyMove E (qThread st) m height of (legal, th) \<Rightarrow>
            if \<not> legal then Inr (st\<lparr>qPicker := mp, qThread := th\<rparr>)
            else
              case Q th (- beta) (- qAlpha st) (height + 1) of
                Stop why \<Rightarrow> Inl (Stop why)
              | Value (v, lpv, th) \<Rightarrow>
                  let val = - v;
                      th = revertMove E th m height;
                      st = st\<lparr>qPicker := mp, qThread := th, qLpv := lpv\<rparr>;
                      st = (if val > qBest st
                            then (if val > qAlpha st
                                  then st\<lparr>qBest := val, qAlpha := val, qPv := m # lpv\<rparr>
                                  else st\<lparr>qBest := val\<rparr>)
                            else st)
                  in if qAlpha st \<ge> beta then Inl (Value (qBest st, qPv st, qThread st))
                     else Inr st)"

text \<open>The body of \<^verbatim>\<open>qsearch\<close>, steps 1 to 7, with \<open>Q\<close> for the recursive call.\<close>

definition qsearchBody ::
  "params \<Rightarrow> ('x, 'p) extern \<Rightarrow> 'x qsearchfn \<Rightarrow> nat \<Rightarrow> 'x qsearchfn" where
  "qsearchBody P E Q n th0 alpha0 beta height =
     (let th = th0\<lparr>seldepth := max (seldepth th0) height, nodes := nodes th0 + 1\<rparr>
      in if abortRequested E th then Stop Longjmp
         else if boardIsDrawn E (board th) height then Value (0, [], th)
         else if height \<ge> MAX_PLY P
         then (case evaluateBoard E th of (e, th) \<Rightarrow> Value (e, [], th))
         else
           let tt = getTTEntry E th (hash (board th));
               ttValue = (case tt of None \<Rightarrow> 0
                          | Some e \<Rightarrow> valueFromTT P (entryValue e) height)
           in if (case tt of None \<Rightarrow> False
                  | Some e \<Rightarrow> boundCuts (entryBound e) ttValue alpha0 beta)
              then Value (ttValue, [], th)
              else
                case staticEval P E tt th of (eval, th) \<Rightarrow>
                  let best = eval;
                      alpha = max alpha0 eval
                  in if alpha \<ge> beta then Value (eval, [], th)
                     else
                       let margin = alpha - eval - QFutilityMargin P
                       in if bestTacticalMoveValue P (board th) < margin
                          then Value (eval, [], th)
                          else loopFuel (qsearchStep E Q beta height) n
                                 \<lparr> qPicker = initNoisyMovePicker E th (max (QSEEMargin P) margin),
                                   qThread = th, qAlpha = alpha, qBest = best,
                                   qPv = [], qLpv = [] \<rparr>)"

text \<open>
  \<^verbatim>\<open>qsearch\<close> with fuel \<open>n\<close>: the recursive call and the move loop get the fuel that
  is left.
\<close>

primrec qsearch :: "params \<Rightarrow> ('x, 'p) extern \<Rightarrow> nat \<Rightarrow> 'x qsearchfn" where
  "qsearch P E 0 = (\<lambda>th alpha beta height. Stop OutOfFuel)"
| "qsearch P E (Suc n) = qsearchBody P E (qsearch P E n) n"

section \<open>The search: steps 1 to 8\<close>

text \<open>
  What steps 4 to 6 of \<^verbatim>\<open>search\<close> leave for the later steps: the thread, the depth
  (not negative any more), the variables of the table probe, the variable \<^verbatim>\<open>value\<close>,
  the static evaluation, the flags, the margins (\<open>seeMargin\<close> indexed by \<^verbatim>\<open>isQuiet\<close>),
  and the local variation \<^verbatim>\<open>lpv\<close>.
\<close>

record 'x searchCtx =
  cThread :: "'x Thread"
  cDepth :: int
  cTtHit :: bool
  cTtMove :: move
  cTtValue :: int
  cTtEval :: int
  cTtDepth :: int
  cTtBound :: bound
  cValue :: int
  cEval :: int
  cInCheck :: bool
  cImproving :: bool
  cFutilityMargin :: int
  cSeeMargin :: "bool \<Rightarrow> int"
  cLpv :: "move list"

text \<open>The two bounds of mate-distance pruning.\<close>

definition mateAlpha :: "params \<Rightarrow> int \<Rightarrow> int \<Rightarrow> int" where
  "mateAlpha P alpha height = (if alpha > - MATE P + height then alpha else - MATE P + height)"

definition mateBeta :: "params \<Rightarrow> int \<Rightarrow> int \<Rightarrow> int" where
  "mateBeta P beta height =
     (if beta < MATE P - height - 1 then beta else MATE P - height - 1)"

text \<open>
  Steps 1 to 3: the drop into \<^verbatim>\<open>qsearch\<close> (\<open>Q\<close>), the counters, the abort check and the
  early exits of a node other than the root. \<open>Inl\<close> is a return from \<^verbatim>\<open>search\<close>,
  \<open>Inr\<close> the thread and the depth for step 4.
\<close>

definition searchEarlyExits ::
  "params \<Rightarrow> ('x, 'p) extern \<Rightarrow> 'x qsearchfn \<Rightarrow> 'x Thread \<Rightarrow> int \<Rightarrow> int \<Rightarrow> int \<Rightarrow> int
     \<Rightarrow> 'x searched + ('x Thread \<times> int)" where
  "searchEarlyExits P E Q th0 alpha beta depth0 height =
     (let RootNode = (height = 0)
      in if depth0 \<le> 0 \<and> kingAttackers (board th0) = 0
         then Inl (Q th0 alpha beta height)
         else
           let depth = max 0 depth0;
               th = th0\<lparr>seldepth := (if RootNode then 0 else max (seldepth th0) height),
                        nodes := nodes th0 + 1\<rparr>
           in if abortRequested E th then Inl (Stop Longjmp)
              else if RootNode then Inr (th, depth)
              else if boardIsDrawn E (board th) height then Inl (Value (0, [], th))
              else if height \<ge> MAX_PLY P
              then (case evaluateBoard E th of (e, th) \<Rightarrow> Inl (Value (e, [], th)))
              else if mateAlpha P alpha height \<ge> mateBeta P beta height
              then Inl (Value (mateAlpha P alpha height, [], th))
              else Inr (th, depth))"

text \<open>
  Steps 4 to 6: the probe of the transposition table, the probe of the tablebases, and
  the values the pruning steps use. A tablebase result that does not cut off still
  replaces \<^verbatim>\<open>ttBound\<close> and \<^verbatim>\<open>value\<close>.
\<close>

definition searchProbe ::
  "params \<Rightarrow> ('x, 'p) extern \<Rightarrow> 'x Thread \<Rightarrow> int \<Rightarrow> int \<Rightarrow> int \<Rightarrow> int
     \<Rightarrow> 'x searched + 'x searchCtx" where
  "searchProbe P E th0 alpha beta depth height =
     (let PvNode = (alpha \<noteq> beta - 1);
          tt = getTTEntry E th0 (hash (board th0));
          ttHit = (tt \<noteq> None);
          ttMove = (case tt of None \<Rightarrow> NONE_MOVE E | Some e \<Rightarrow> entryMove e);
          ttValue = (case tt of None \<Rightarrow> 0 | Some e \<Rightarrow> valueFromTT P (entryValue e) height);
          ttEval = (case tt of None \<Rightarrow> 0 | Some e \<Rightarrow> entryEval e);
          ttDepth = (case tt of None \<Rightarrow> 0 | Some e \<Rightarrow> entryDepth e);
          ttBound = (case tt of None \<Rightarrow> BOUND_NONE | Some e \<Rightarrow> entryBound e)
      in if ttHit \<and> ttDepth \<ge> depth \<and> (depth = 0 \<or> \<not> PvNode)
            \<and> boundCuts ttBound ttValue alpha beta
         then Inl (Value (ttValue, [], th0))
         else
           let tbresult = tablebasesProbeWDL E (board th0) depth height;
               th = (if tbresult \<noteq> TB_RESULT_FAILED then th0\<lparr>tbhits := tbhits th0 + 1\<rparr>
                     else th0);
               val = (if tbresult = TB_RESULT_FAILED then - MATE P
                      else if tbresult = TB_LOSS then - MATE P + MAX_PLY P + height + 1
                      else if tbresult = TB_WIN then MATE P - MAX_PLY P - height - 1
                      else 0);
               ttBound = (if tbresult = TB_RESULT_FAILED then ttBound
                          else if tbresult = TB_LOSS then BOUND_UPPER
                          else if tbresult = TB_WIN then BOUND_LOWER
                          else BOUND_EXACT)
           in if tbresult \<noteq> TB_RESULT_FAILED \<and> boundCuts ttBound val alpha beta
              then Inl (Value (val, [],
                     storeTTEntry E th (hash (board th)) (NONE_MOVE E) val (VALUE_NONE P)
                       (MAX_PLY P - 1) ttBound))
              else
                let inCheck = (kingAttackers (board th) \<noteq> 0)
                in case staticEval P E tt th of (eval, th) \<Rightarrow>
                     let th = th\<lparr>evalStack := (evalStack th)(height := eval)\<rparr>;
                         futilityMargin = eval + FutilityMargin P * depth;
                         seeMargin = (\<lambda>isQuiet. if isQuiet then SEEQuietMargin P * depth
                                                 else SEENoisyMargin P * depth * depth);
                         improving = (height \<ge> 2 \<and> eval > evalStack th (height - 2));
                         th = th\<lparr>killers := (killers th)(height + 1 := (NONE_MOVE E, NONE_MOVE E))\<rparr>
                     in Inr \<lparr> cThread = th, cDepth = depth, cTtHit = ttHit, cTtMove = ttMove,
                              cTtValue = ttValue, cTtEval = ttEval, cTtDepth = ttDepth,
                              cTtBound = ttBound, cValue = val, cEval = eval,
                              cInCheck = inCheck, cImproving = improving,
                              cFutilityMargin = futilityMargin, cSeeMargin = seeMargin,
                              cLpv = [] \<rparr>)"

text \<open>Step 7, razoring, and step 8, beta pruning.\<close>

definition searchStaticPruning ::
  "params \<Rightarrow> 'x qsearchfn \<Rightarrow> 'x searchCtx \<Rightarrow> int \<Rightarrow> int \<Rightarrow> int \<Rightarrow> 'x searched + 'x searchCtx" where
  "searchStaticPruning P Q c alpha beta height =
     (let PvNode = (alpha \<noteq> beta - 1)
      in if \<not> PvNode \<and> \<not> cInCheck c \<and> cDepth c \<le> RazorDepth P
            \<and> cEval c + RazorMargin P < alpha
         then Inl (Q (cThread c) alpha beta height)
         else if \<not> PvNode \<and> \<not> cInCheck c \<and> cDepth c \<le> BetaPruningDepth P
                 \<and> cEval c - BetaMargin P * cDepth c > beta
         then Inl (Value (cEval c, [], cThread c))
         else Inr c)"

text \<open>Steps 1 to 8 in a row: a return from \<^verbatim>\<open>search\<close>, or the values for step 9.\<close>

definition searchBeforeMoves ::
  "params \<Rightarrow> ('x, 'p) extern \<Rightarrow> 'x qsearchfn \<Rightarrow> 'x Thread \<Rightarrow> int \<Rightarrow> int \<Rightarrow> int \<Rightarrow> int
     \<Rightarrow> 'x searched + 'x searchCtx" where
  "searchBeforeMoves P E Q th alpha beta depth height =
     (case searchEarlyExits P E Q th alpha beta depth height of
        Inl r \<Rightarrow> Inl r
      | Inr (th, depth) \<Rightarrow>
          (case searchProbe P E th alpha beta depth height of
             Inl r \<Rightarrow> Inl r
           | Inr c \<Rightarrow> searchStaticPruning P Q c alpha beta height))"

section \<open>The search: null move pruning and ProbCut\<close>

text \<open>The condition of step 9.\<close>

definition nullMoveApplies ::
  "params \<Rightarrow> ('x, 'p) extern \<Rightarrow> 'x searchCtx \<Rightarrow> int \<Rightarrow> int \<Rightarrow> int \<Rightarrow> bool" where
  "nullMoveApplies P E c alpha beta height =
     (let PvNode = (alpha \<noteq> beta - 1);
          th = cThread c
      in \<not> PvNode
         \<and> \<not> cInCheck c
         \<and> cDepth c \<ge> NullMovePruningDepth P
         \<and> cEval c \<ge> beta
         \<and> hasNonPawnMaterial (board th) (turn (board th))
         \<and> moveStack th (height - 1) \<noteq> NULL_MOVE E
         \<and> moveStack th (height - 2) \<noteq> NULL_MOVE E
         \<and> (\<not> cTtHit c \<or> \<not> hasUpper (cTtBound c) \<or> cTtValue c \<ge> beta))"

text \<open>The reduction \<^verbatim>\<open>R = 4 + depth / 6 + MIN(3, (eval - beta) / 200)\<close>.\<close>

definition nullMoveReduction :: "'x searchCtx \<Rightarrow> int \<Rightarrow> int" where
  "nullMoveReduction c beta = 4 + cdiv (cDepth c) 6 + min 3 (cdiv (cEval c - beta) 200)"

text \<open>
  Step 9, with \<open>S\<close> for the recursive call of \<^verbatim>\<open>search\<close>: a return from \<^verbatim>\<open>search\<close>
  (\<open>Inl\<close>), or the values for step 10.
\<close>

definition nullMovePruning ::
  "params \<Rightarrow> ('x, 'p) extern \<Rightarrow> 'x searchfn \<Rightarrow> 'x searchCtx \<Rightarrow> int \<Rightarrow> int \<Rightarrow> int
     \<Rightarrow> 'x searched + 'x searchCtx" where
  "nullMovePruning P E S c alpha beta height =
     (if nullMoveApplies P E c alpha beta height
      then
        let R = nullMoveReduction c beta
        in case applyMove E (cThread c) (NULL_MOVE E) height of (legal, th) \<Rightarrow>
             (case S th (- beta) (- beta + 1) (cDepth c - R) (height + 1) of
                Stop why \<Rightarrow> Inl (Stop why)
              | Value (v, lpv, th) \<Rightarrow>
                  let val = - v;
                      th = revertMove E th (NULL_MOVE E) height
                  in if val \<ge> beta then Inl (Value (beta, [], th))
                     else Inr (c\<lparr>cThread := th, cValue := val, cLpv := lpv\<rparr>))
      else Inr c)"

text \<open>The condition of step 10 and its bound \<^verbatim>\<open>rBeta\<close>.\<close>

definition probCutApplies :: "params \<Rightarrow> 'x searchCtx \<Rightarrow> int \<Rightarrow> int \<Rightarrow> bool" where
  "probCutApplies P c alpha beta =
     (let PvNode = (alpha \<noteq> beta - 1)
      in \<not> PvNode
         \<and> cDepth c \<ge> ProbCutDepth P
         \<and> \<bar>beta\<bar> < MATE_IN_MAX P
         \<and> cEval c + bestTacticalMoveValue P (board (cThread c)) \<ge> beta + ProbCutMargin P)"

definition probCutBeta :: "params \<Rightarrow> int \<Rightarrow> int" where
  "probCutBeta P beta = min (beta + ProbCutMargin P) (MATE P - MAX_PLY P - 1)"

text \<open>
  One pass through the loop of step 10 on the picker and the values of the node. The loop
  ends with \<open>Inl (Value (Inl r))\<close> when \<^verbatim>\<open>search\<close> returns \<open>r\<close> from inside it, and with
  \<open>Inl (Value (Inr c))\<close> when the picker has no more moves and step 11 is next.
\<close>

definition probCutStep ::
  "params \<Rightarrow> ('x, 'p) extern \<Rightarrow> 'x searchfn \<Rightarrow> int \<Rightarrow> int \<Rightarrow> 'p \<times> 'x searchCtx
     \<Rightarrow> ((int \<times> move list \<times> 'x Thread) + 'x searchCtx) outcome + ('p \<times> 'x searchCtx)" where
  "probCutStep P E S beta height pc =
     (case pc of (picker, c) \<Rightarrow>
        let rBeta = probCutBeta P beta
        in case selectNextMove E picker (cThread c) True of (m, mp) \<Rightarrow>
             if m = NONE_MOVE E then Inl (Value (Inr c))
             else
               case applyMove E (cThread c) m height of (legal, th) \<Rightarrow>
                 if \<not> legal then Inr (mp, c\<lparr>cThread := th\<rparr>)
                 else
                   case S th (- rBeta) (- rBeta + 1) (cDepth c - 4) (height + 1) of
                     Stop why \<Rightarrow> Inl (Stop why)
                   | Value (v, lpv, th) \<Rightarrow>
                       let val = - v;
                           th = revertMove E th m height
                       in if val \<ge> rBeta then Inl (Value (Inl (val, [], th)))
                          else Inr (mp, c\<lparr>cThread := th, cValue := val, cLpv := lpv\<rparr>))"

definition probCut ::
  "params \<Rightarrow> ('x, 'p) extern \<Rightarrow> 'x searchfn \<Rightarrow> nat \<Rightarrow> 'x searchCtx \<Rightarrow> int \<Rightarrow> int \<Rightarrow> int
     \<Rightarrow> 'x searched + 'x searchCtx" where
  "probCut P E S n c alpha beta height =
     (if probCutApplies P c alpha beta
      then
        case loopFuel (probCutStep P E S beta height) n
               (initNoisyMovePicker E (cThread c) (probCutBeta P beta - cEval c), c) of
          Stop why \<Rightarrow> Inl (Stop why)
        | Value (Inl r) \<Rightarrow> Inl (Value r)
        | Value (Inr c) \<Rightarrow> Inr c
      else Inr c)"

section \<open>Singular move verification\<close>

text \<open>The variables of \<^verbatim>\<open>moveIsSingular\<close> that its loop changes.\<close>

record ('x, 'p) sstate =
  sPicker :: 'p
  sThread :: "'x Thread"
  sValue :: int
  sLpv :: "move list"

text \<open>
  One pass through the loop of \<^verbatim>\<open>moveIsSingular\<close>; \<open>Inl (Value st)\<close> when the loop ends,
  by \<^verbatim>\<open>NONE_MOVE\<close> or by \<^verbatim>\<open>break\<close>.
\<close>

definition singularStep ::
  "('x, 'p) extern \<Rightarrow> 'x searchfn \<Rightarrow> move \<Rightarrow> int \<Rightarrow> int \<Rightarrow> int \<Rightarrow> ('x, 'p) sstate
     \<Rightarrow> ('x, 'p) sstate outcome + ('x, 'p) sstate" where
  "singularStep E S ttMove rBeta depth height st =
     (case selectNextMove E (sPicker st) (sThread st) False of (m, mp) \<Rightarrow>
        if m = NONE_MOVE E then Inl (Value (st\<lparr>sPicker := mp\<rparr>))
        else if m = ttMove then Inr (st\<lparr>sPicker := mp\<rparr>)
        else
          case applyMove E (sThread st) m height of (legal, th) \<Rightarrow>
            if \<not> legal then Inr (st\<lparr>sPicker := mp, sThread := th\<rparr>)
            else
              case S th (- rBeta - 1) (- rBeta) (cdiv depth 2 - 1) (height + 1) of
                Stop why \<Rightarrow> Inl (Stop why)
              | Value (v, lpv, th) \<Rightarrow>
                  let val = - v;
                      th = revertMove E th m height;
                      st = st\<lparr>sPicker := mp, sThread := th, sValue := val, sLpv := lpv\<rparr>
                  in if val > rBeta then Inl (Value st) else Inr st)"

definition moveIsSingular ::
  "params \<Rightarrow> ('x, 'p) extern \<Rightarrow> 'x searchfn \<Rightarrow> nat \<Rightarrow> 'x Thread \<Rightarrow> move \<Rightarrow> int \<Rightarrow> int \<Rightarrow> int
     \<Rightarrow> (bool \<times> 'x Thread) outcome" where
  "moveIsSingular P E S n th0 ttMove ttValue depth height =
     (let val = - MATE P;
          rBeta = max (ttValue - depth) (- MATE P);
          th = revertMove E th0 ttMove height
      in case loopFuel (singularStep E S ttMove rBeta depth height) n
                \<lparr> sPicker = initMovePicker E th (NONE_MOVE E) height, sThread = th,
                  sValue = val, sLpv = [] \<rparr> of
           Stop why \<Rightarrow> Stop why
         | Value st \<Rightarrow>
             (case applyMove E (sThread st) ttMove height of (legal, th) \<Rightarrow>
                Value (sValue st \<le> rBeta, th)))"

text \<open>
  The table move has no legal alternative: the picker, asked at most \<open>k\<close> times from the
  given state, answers \<^verbatim>\<open>NONE_MOVE\<close> after moves each of which is the table move or is
  refused by \<^verbatim>\<open>apply\<close>.
\<close>

primrec noOtherLegalMove ::
  "('x, 'p) extern \<Rightarrow> move \<Rightarrow> int \<Rightarrow> nat \<Rightarrow> 'p \<Rightarrow> 'x Thread \<Rightarrow> bool" where
  "noOtherLegalMove E ttMove height 0 mp th = False"
| "noOtherLegalMove E ttMove height (Suc k) mp th =
     (case selectNextMove E mp th False of (m, mp') \<Rightarrow>
        if m = NONE_MOVE E then True
        else if m = ttMove then noOtherLegalMove E ttMove height k mp' th
        else (case applyMove E th m height of (legal, th') \<Rightarrow>
                \<not> legal \<and> noOtherLegalMove E ttMove height k mp' th'))"

section \<open>The search: the move loop\<close>

text \<open>
  The variables of \<^verbatim>\<open>search\<close> that the loop of step 11 changes. \<open>mPruned\<close> is not a
  variable of \<^verbatim>\<open>search.c\<close>: it counts the moves that steps 12C, 12D and 13 skip, and
  nothing reads it.
\<close>

record ('x, 'p) mstate =
  mPicker :: 'p
  mThread :: "'x Thread"
  mAlpha :: int
  mValue :: int
  mBest :: int
  mBestMove :: move
  mPlayed :: int
  mQuiets :: int
  mQuietsTried :: "move list"
  mSkipQuiets :: bool
  mHist :: int
  mCmhist :: int
  mFmhist :: int
  mPv :: "move list"
  mLpv :: "move list"
  mPruned :: nat

text \<open>
  Step 12 for a quiet move, once a line that is not a mate is known: the new value of
  \<^verbatim>\<open>skipQuiets\<close> (12A, 12B) and whether the move is skipped (12C, 12D).
\<close>

definition quietPruning :: "params \<Rightarrow> 'x searchCtx \<Rightarrow> ('x, 'p) mstate \<Rightarrow> bool \<times> bool" where
  "quietPruning P c st =
     (let depth = cDepth c;
          improving = cImproving c;
          skipQuiets = mSkipQuiets st;
          skipQuiets = (if cFutilityMargin c \<le> mAlpha st
                           \<and> depth \<le> FutilityPruningDepth P
                           \<and> mHist st + mCmhist st + mFmhist st
                               < FutilityPruningHistoryLimit P improving
                        then True else skipQuiets);
          skipQuiets = (if depth \<le> LateMovePruningDepth P
                           \<and> mQuiets st \<ge> LateMovePruningCounts P improving depth
                        then True else skipQuiets)
      in if depth \<le> CounterMovePruningDepth P improving
            \<and> mCmhist st < CounterMoveHistoryLimit P improving
         then (skipQuiets, True)
         else if depth \<le> FollowUpMovePruningDepth P improving
                 \<and> mFmhist st < FollowUpMoveHistoryLimit P improving
         then (skipQuiets, True)
         else (skipQuiets, False))"

text \<open>Step 14: the reduction \<^verbatim>\<open>R\<close> of a move, \<open>played\<close> already counting it.\<close>

definition lateMoveReduction ::
  "params \<Rightarrow> ('x, 'p) extern \<Rightarrow> 'x searchCtx \<Rightarrow> bool \<Rightarrow> 'p \<Rightarrow> move \<Rightarrow> bool \<Rightarrow> int
     \<Rightarrow> ('x, 'p) mstate \<Rightarrow> int" where
  "lateMoveReduction P E c PvNode mp m isQuiet played st =
     (let depth = cDepth c
      in if isQuiet \<and> depth > 2 \<and> played > 1
         then
           let R = LMRTable P (min depth 63) (min played 63);
               R = R + (if \<not> PvNode then 1 else 0);
               R = R + (if \<not> cImproving c then 1 else 0);
               R = R - (if m = killer1 E mp \<or> m = killer2 E mp \<or> m = counter E mp
                        then 1 else 0);
               R = R - max (- 2) (min 2 (cdiv (mHist st + mCmhist st + mFmhist st) 5000))
           in min (depth - 1) (max R 1)
         else 1)"

text \<open>\<^verbatim>\<open>value = -search(thread, &lpv, a, b, d, h)\<close>.\<close>

definition childSearch :: "'x searchfn \<Rightarrow> 'x searchfn" where
  "childSearch S th a b d h =
     (case S th a b d h of
        Stop why \<Rightarrow> Stop why
      | Value (v, lpv, th) \<Rightarrow> Value (- v, lpv, th))"

text \<open>
  Steps 16A, 16B and 16C on \<^verbatim>\<open>value\<close>, \<^verbatim>\<open>lpv\<close> and the thread: the reduced search, the
  search on the null window, and the search on the full window.
\<close>

definition researches ::
  "'x searchfn \<Rightarrow> bool \<Rightarrow> int \<Rightarrow> int \<Rightarrow> int \<Rightarrow> int \<Rightarrow> int \<Rightarrow> int
     \<Rightarrow> int \<times> move list \<times> 'x Thread \<Rightarrow> 'x searched" where
  "researches S PvNode played R newDepth alpha beta height cur =
     (case (if R \<noteq> 1
            then childSearch S (snd (snd cur)) (- alpha - 1) (- alpha) (newDepth - R) (height + 1)
            else Value cur) of
        Stop why \<Rightarrow> Stop why
      | Value (val, lpv, th) \<Rightarrow>
          (case (if (R \<noteq> 1 \<and> val > alpha) \<or> (R = 1 \<and> \<not> (PvNode \<and> played = 1))
                 then childSearch S th (- alpha - 1) (- alpha) (newDepth - 1) (height + 1)
                 else Value (val, lpv, th)) of
             Stop why \<Rightarrow> Stop why
           | Value (val, lpv, th) \<Rightarrow>
               if PvNode \<and> (played = 1 \<or> val > alpha)
               then childSearch S th (- beta) (- alpha) (newDepth - 1) (height + 1)
               else Value (val, lpv, th)))"

text \<open>
  Step 15: whether the move is extended. \<^verbatim>\<open>moveIsSingular\<close> is called only when the two
  other reasons fail and the move is a candidate.
\<close>

definition extensionOf ::
  "params \<Rightarrow> ('x, 'p) extern \<Rightarrow> 'x searchfn \<Rightarrow> nat \<Rightarrow> 'x searchCtx \<Rightarrow> int \<Rightarrow> move \<Rightarrow> bool
     \<Rightarrow> ('x, 'p) mstate \<Rightarrow> 'x Thread \<Rightarrow> (bool \<times> 'x Thread) outcome" where
  "extensionOf P E S n c height m isQuiet st th =
     (let RootNode = (height = 0);
          singular = (\<not> RootNode \<and> cDepth c \<ge> 8 \<and> m = cTtMove c
                      \<and> cTtDepth c \<ge> cDepth c - 2 \<and> hasLower (cTtBound c))
      in if cInCheck c then Value (True, th)
         else if isQuiet \<and> mQuiets st \<le> 4 \<and> mCmhist st \<ge> 10000 \<and> mFmhist st \<ge> 10000
         then Value (True, th)
         else if singular
         then moveIsSingular P E S n th (cTtMove c) (cTtValue c) (cDepth c) height
         else Value (False, th))"

text \<open>
  Steps 14 to 17 for a move that passed the pruning steps: \<open>Inr\<close> for the next pass of
  the loop, \<open>Inl (Value st)\<close> when the loop ends by \<^verbatim>\<open>break\<close>.
\<close>

definition playMove ::
  "params \<Rightarrow> ('x, 'p) extern \<Rightarrow> 'x searchfn \<Rightarrow> nat \<Rightarrow> 'x searchCtx \<Rightarrow> int \<Rightarrow> int \<Rightarrow> int
     \<Rightarrow> move \<Rightarrow> bool \<Rightarrow> ('x, 'p) mstate \<Rightarrow> ('x, 'p) mstate outcome + ('x, 'p) mstate" where
  "playMove P E S n c alpha0 beta height m isQuiet st =
     (let PvNode = (alpha0 \<noteq> beta - 1);
          RootNode = (height = 0)
      in case applyMove E (mThread st) m height of (legal, th) \<Rightarrow>
           if \<not> legal then Inr (st\<lparr>mThread := th\<rparr>)
           else
             let played = mPlayed st + 1;
                 R = lateMoveReduction P E c PvNode (mPicker st) m isQuiet played st
             in case extensionOf P E S n c height m isQuiet st th of
                  Stop why \<Rightarrow> Inl (Stop why)
                | Value (extension, th) \<Rightarrow>
                    let newDepth = cDepth c + (if extension \<and> \<not> RootNode then 1 else 0)
                    in case researches S PvNode played R newDepth (mAlpha st) beta height
                              (mValue st, mLpv st, th) of
                         Stop why \<Rightarrow> Inl (Stop why)
                       | Value (val, lpv, th) \<Rightarrow>
                           let th = revertMove E th m height;
                               st = st\<lparr>mThread := th, mValue := val, mLpv := lpv,
                                        mPlayed := played\<rparr>
                           in if val > mBest st
                              then
                                let st = st\<lparr>mBest := val, mBestMove := m\<rparr>
                                in if val > mAlpha st
                                   then
                                     let st = st\<lparr>mAlpha := val, mPv := m # lpv\<rparr>
                                     in if mAlpha st \<ge> beta then Inl (Value st) else Inr st
                                   else Inr st
                              else Inr st)"

text \<open>
  One pass through the loop of step 11: the next move of the picker, the bookkeeping of
  quiet moves, the pruning steps 12 and 13, and then \<open>playMove\<close>.
\<close>

definition mainStep ::
  "params \<Rightarrow> boardlib \<Rightarrow> ('x, 'p) extern \<Rightarrow> 'x searchfn \<Rightarrow> nat \<Rightarrow> 'x searchCtx \<Rightarrow> int \<Rightarrow> int
     \<Rightarrow> int \<Rightarrow> ('x, 'p) mstate \<Rightarrow> ('x, 'p) mstate outcome + ('x, 'p) mstate" where
  "mainStep P G E S n c alpha0 beta height st0 =
     (case selectNextMove E (mPicker st0) (mThread st0) (mSkipQuiets st0) of (m, mp) \<Rightarrow>
        if m = NONE_MOVE E then Inl (Value (st0\<lparr>mPicker := mp\<rparr>))
        else
          let st = st0\<lparr>mPicker := mp\<rparr>;
              isQuiet = (\<not> moveIsTactical G (board (mThread st)) m);
              st = (if isQuiet
                    then (case getHistory E (mThread st) m height of (h, cm, fm) \<Rightarrow>
                            st\<lparr>mQuietsTried := mQuietsTried st @ [m],
                               mQuiets := mQuiets st + 1,
                               mHist := h, mCmhist := cm, mFmhist := fm\<rparr>)
                    else st);
              q = (if isQuiet \<and> mBest st > MATED_IN_MAX P then quietPruning P c st
                   else (mSkipQuiets st, False));
              st = st\<lparr>mSkipQuiets := fst q\<rparr>
          in if snd q then Inr (st\<lparr>mPruned := Suc (mPruned st)\<rparr>)
             else if mBest st > MATED_IN_MAX P
                     \<and> cDepth c \<le> SEEPruningDepth P
                     \<and> pastGoodNoisy E mp
             then (case staticExchangeEvaluation P G (board (mThread st)) m
                          (cSeeMargin c isQuiet) of
                     None \<Rightarrow> Inl (Stop UndefinedExchange)
                   | Some False \<Rightarrow> Inr (st\<lparr>mPruned := Suc (mPruned st)\<rparr>)
                   | Some True \<Rightarrow> playMove P E S n c alpha0 beta height m isQuiet st)
             else playMove P E S n c alpha0 beta height m isQuiet st)"

section \<open>The search: after the move loop\<close>

text \<open>The bound of step 20.\<close>

definition storedBound :: "int \<Rightarrow> int \<Rightarrow> int \<Rightarrow> bound" where
  "storedBound best oldAlpha beta =
     (if best \<ge> beta then BOUND_LOWER
      else if best > oldAlpha then BOUND_EXACT
      else BOUND_UPPER)"

text \<open>
  Steps 18 to 20 on the variables the loop left: mate or stalemate when no move was
  played, the update of the history tables, the store into the transposition table, and
  the return of \<^verbatim>\<open>best\<close>.
\<close>

definition searchFinish ::
  "params \<Rightarrow> boardlib \<Rightarrow> ('x, 'p) extern \<Rightarrow> 'x searchCtx \<Rightarrow> int \<Rightarrow> int \<Rightarrow> int
     \<Rightarrow> ('x, 'p) mstate \<Rightarrow> 'x searched" where
  "searchFinish P G E c oldAlpha beta height st =
     (if mPlayed st = 0
      then Value (if cInCheck c then - MATE P + height else 0, mPv st, mThread st)
      else
        let th = mThread st;
            th = (if mBest st \<ge> beta \<and> \<not> moveIsTactical G (board th) (mBestMove st)
                  then updateHistoryHeuristics E th (mQuietsTried st) (mQuiets st) height
                         (cDepth c * cDepth c)
                  else th);
            ttBound = storedBound (mBest st) oldAlpha beta;
            th = storeTTEntry E th (hash (board th)) (mBestMove st)
                   (valueToTT P (mBest st) height) (cEval c) (cDepth c) ttBound
        in Value (mBest st, mPv st, th))"

text \<open>The variables of the move loop before its first pass.\<close>

definition mainInit :: "params \<Rightarrow> ('x, 'p) extern \<Rightarrow> 'x searchCtx \<Rightarrow> int \<Rightarrow> int \<Rightarrow> ('x, 'p) mstate" where
  "mainInit P E c alpha height =
     \<lparr> mPicker = initMovePicker E (cThread c) (cTtMove c) height,
       mThread = cThread c, mAlpha = alpha, mValue = cValue c, mBest = - MATE P,
       mBestMove = NONE_MOVE E, mPlayed = 0, mQuiets = 0, mQuietsTried = [],
       mSkipQuiets = False, mHist = 0, mCmhist = 0, mFmhist = 0,
       mPv = [], mLpv = cLpv c, mPruned = 0 \<rparr>"

text \<open>The loop of step 11, with fuel \<open>n\<close>.\<close>

definition mainLoop ::
  "params \<Rightarrow> boardlib \<Rightarrow> ('x, 'p) extern \<Rightarrow> 'x searchfn \<Rightarrow> nat \<Rightarrow> 'x searchCtx \<Rightarrow> int \<Rightarrow> int
     \<Rightarrow> int \<Rightarrow> ('x, 'p) mstate outcome" where
  "mainLoop P G E S n c alpha beta height =
     loopFuel (mainStep P G E S n c alpha beta height) n (mainInit P E c alpha height)"

text \<open>
  Steps 1 to 10 in a row: a return from \<^verbatim>\<open>search\<close>, or the values with which the move
  loop starts.
\<close>

definition searchBeforeLoop ::
  "params \<Rightarrow> ('x, 'p) extern \<Rightarrow> 'x qsearchfn \<Rightarrow> 'x searchfn \<Rightarrow> nat \<Rightarrow> 'x Thread \<Rightarrow> int \<Rightarrow> int
     \<Rightarrow> int \<Rightarrow> int \<Rightarrow> 'x searched + 'x searchCtx" where
  "searchBeforeLoop P E Q S n th alpha beta depth height =
     (case searchBeforeMoves P E Q th alpha beta depth height of
        Inl r \<Rightarrow> Inl r
      | Inr c \<Rightarrow>
          (case nullMovePruning P E S c alpha beta height of
             Inl r \<Rightarrow> Inl r
           | Inr c \<Rightarrow> probCut P E S n c alpha beta height))"

text \<open>
  The body of \<^verbatim>\<open>search\<close>, with \<open>Q\<close> for \<^verbatim>\<open>qsearch\<close>, \<open>S\<close> for the recursive call and
  \<open>n\<close> for the fuel of its loops.
\<close>

definition searchBody ::
  "params \<Rightarrow> boardlib \<Rightarrow> ('x, 'p) extern \<Rightarrow> 'x qsearchfn \<Rightarrow> 'x searchfn \<Rightarrow> nat \<Rightarrow> 'x searchfn" where
  "searchBody P G E Q S n th alpha beta depth height =
     (case searchBeforeLoop P E Q S n th alpha beta depth height of
        Inl r \<Rightarrow> r
      | Inr c \<Rightarrow>
          (case mainLoop P G E S n c alpha beta height of
             Stop why \<Rightarrow> Stop why
           | Value st \<Rightarrow> searchFinish P G E c alpha beta height st))"

text \<open>
  \<^verbatim>\<open>search\<close> with fuel \<open>n\<close>: \<^verbatim>\<open>qsearch\<close>, the recursive calls and the loops get the fuel
  that is left.
\<close>

primrec search :: "params \<Rightarrow> boardlib \<Rightarrow> ('x, 'p) extern \<Rightarrow> nat \<Rightarrow> 'x searchfn" where
  "search P G E 0 = (\<lambda>th alpha beta depth height. Stop OutOfFuel)"
| "search P G E (Suc n) = searchBody P G E (qsearch P E n) (search P G E n) n"

section \<open>The aspiration window\<close>

text \<open>The variables of \<^verbatim>\<open>aspirationWindow\<close> that its loop changes.\<close>

record 'x wstate =
  wAlpha :: int
  wBeta :: int
  wDelta :: int
  wThread :: "'x Thread"

text \<open>
  One pass through \<^verbatim>\<open>while (1)\<close> in \<^verbatim>\<open>aspirationWindow\<close>, with \<open>S\<close> for \<^verbatim>\<open>search\<close>: a
  search at the root on the window, the return when the value is inside it, and the
  wider window for the next pass otherwise.
\<close>

definition aspirationStep ::
  "params \<Rightarrow> ('x, 'p) extern \<Rightarrow> 'x searchfn \<Rightarrow> int \<Rightarrow> 'x wstate \<Rightarrow> 'x searched + 'x wstate" where
  "aspirationStep P E S depth st =
     (case S (wThread st) (wAlpha st) (wBeta st) depth 0 of
        Stop why \<Rightarrow> Inl (Stop why)
      | Value (val, pv, th) \<Rightarrow>
          if val > wAlpha st \<and> val < wBeta st then Inl (Value (val, pv, th))
          else
            let th = reportBounds E th (wAlpha st) (wBeta st) val;
                alpha = wAlpha st;
                beta = wBeta st;
                delta = wDelta st;
                beta1 = (if val \<le> alpha then cdiv (alpha + beta) 2 else beta);
                alpha1 = (if val \<le> alpha then max (- MATE P) (alpha - delta) else alpha);
                beta2 = (if val \<ge> beta1 then min (MATE P) (beta1 + delta) else beta1)
            in Inr \<lparr> wAlpha = alpha1, wBeta = beta2, wDelta = delta + cdiv delta 2,
                     wThread = th \<rparr>)"

text \<open>The window with which \<^verbatim>\<open>aspirationWindow\<close> starts.\<close>

definition aspirationInit :: "params \<Rightarrow> 'x Thread \<Rightarrow> int \<Rightarrow> int \<Rightarrow> 'x wstate" where
  "aspirationInit P th depth lastValue =
     \<lparr> wAlpha = (if depth \<ge> WindowDepth P then max (- MATE P) (lastValue - WindowSize P)
                 else - MATE P),
       wBeta = (if depth \<ge> WindowDepth P then min (MATE P) (lastValue + WindowSize P)
                else MATE P),
       wDelta = WindowSize P, wThread = th \<rparr>"

definition aspirationWindow ::
  "params \<Rightarrow> ('x, 'p) extern \<Rightarrow> 'x searchfn \<Rightarrow> nat \<Rightarrow> 'x Thread \<Rightarrow> int \<Rightarrow> int \<Rightarrow> 'x searched" where
  "aspirationWindow P E S n th depth lastValue =
     loopFuel (aspirationStep P E S depth) n (aspirationInit P th depth lastValue)"

text \<open>The window of a pass is inside \<open>[-MATE, MATE]\<close> and not empty, and \<^verbatim>\<open>delta\<close> is positive.\<close>

definition windowInv :: "params \<Rightarrow> 'x wstate \<Rightarrow> bool" where
  "windowInv P st =
     (- MATE P \<le> wAlpha st \<and> wAlpha st < wBeta st \<and> wBeta st \<le> MATE P \<and> 0 < wDelta st)"

section \<open>Invariants of the loops\<close>

text \<open>
  What holds of the variables of the move loop of \<^verbatim>\<open>search\<close> before every pass, for a
  call with the lower bound \<open>alpha0\<close>: \<^verbatim>\<open>played\<close> is not negative, \<^verbatim>\<open>alpha\<close> has not gone
  down, a variation that is not empty comes with a best value above \<open>alpha0\<close>, and the
  variation is empty as long as no move has been played.
\<close>

definition pvInv :: "int \<Rightarrow> ('x, 'p) mstate \<Rightarrow> bool" where
  "pvInv alpha0 st =
     (0 \<le> mPlayed st
      \<and> alpha0 \<le> mAlpha st
      \<and> (mPv st \<noteq> [] \<longrightarrow> alpha0 < mBest st)
      \<and> (mPlayed st = 0 \<longrightarrow> mPv st = []))"

text \<open>
  As long as no move has been played, \<^verbatim>\<open>best\<close> is \<open>-MATE\<close>, \<^verbatim>\<open>skipQuiets\<close> is 0 and no
  move has been pruned.
\<close>

definition freshInv :: "params \<Rightarrow> ('x, 'p) mstate \<Rightarrow> bool" where
  "freshInv P st =
     (0 \<le> mPlayed st
      \<and> (mPlayed st = 0 \<longrightarrow> mBest st = - MATE P \<and> mPruned st = 0 \<and> \<not> mSkipQuiets st))"

text \<open>The invariant of the loop of \<^verbatim>\<open>qsearch\<close>.\<close>

definition qsearchInv :: "int \<Rightarrow> ('x, 'p) qstate \<Rightarrow> bool" where
  "qsearchInv alpha0 st = (alpha0 \<le> qAlpha st \<and> (qPv st \<noteq> [] \<longrightarrow> alpha0 < qBest st))"

section \<open>Sample data\<close>

text \<open>
  Sample constants, used to run the definitions on concrete inputs: mate at 32000, at
  most 128 plies, and the exchange values 100, 450, 450, 675, 1300 and 0 for pawn to king.
\<close>

definition sampleSEE :: "nat \<Rightarrow> int" where
  "sampleSEE t = (if t = 0 then 100 else if t = 1 then 450 else if t = 2 then 450
                  else if t = 3 then 675 else if t = 4 then 1300 else 0)"

definition sampleParams :: params where
  "sampleParams = \<lparr> MATE = 32000, MAX_PLY = 128, VALUE_NONE = 32001,
     SEEPieceValues = sampleSEE,
     RazorDepth = 1, RazorMargin = 325, BetaPruningDepth = 8, BetaMargin = 85,
     NullMovePruningDepth = 2, ProbCutDepth = 5, ProbCutMargin = 100,
     FutilityMargin = 9, FutilityPruningDepth = 8,
     FutilityPruningHistoryLimit = (\<lambda>i. if i then 6000 else 12000),
     LateMovePruningDepth = 8, LateMovePruningCounts = (\<lambda>i d. 3 + d * d),
     CounterMovePruningDepth = (\<lambda>i. if i then 2 else 3),
     CounterMoveHistoryLimit = (\<lambda>i. if i then -1000 else 0),
     FollowUpMovePruningDepth = (\<lambda>i. if i then 2 else 3),
     FollowUpMoveHistoryLimit = (\<lambda>i. if i then -4000 else -2000),
     SEEPruningDepth = 9, SEENoisyMargin = -19, SEEQuietMargin = -64,
     QFutilityMargin = 100, QSEEMargin = 1,
     LMRTable = (\<lambda>d p. 1), WindowSize = 14, WindowDepth = 5 \<rparr>"

text \<open>Two kings only: white king on e1 (square 4), black king on e8 (square 60), white to move.\<close>

definition bareKings :: Board where
  "bareKings = \<lparr> squares = (\<lambda>s. if s = 4 then 5 else if s = 60 then 5 else 6),
     pieces = (\<lambda>t. if t = 5 then 0x1000000000000010 else 0),
     colours = (\<lambda>c. if c = WHITE then 0x10 else 0x1000000000000000),
     turn = WHITE, epSquare = 64, kingAttackers = 0, hash = 0 \<rparr>"

text \<open>
  A sample board library: a move packs the origin in bits 0 to 5, the target in bits 6 to
  11, the move type in bits 12 and 13 and the promotion piece in bits 14 and 15; a piece
  code is four times the piece type plus the colour, and 26 is the empty square. The
  attack generators are those of the board \<open>exchangeBoard\<close> below, where the only
  attackers of d5 (square 35) are the rook on d1, the pawn on c4 and the pawn on e6, and
  no capture uncovers a slider.
\<close>

definition sampleLib :: boardlib where
  "sampleLib = \<lparr> MoveFrom = (\<lambda>m. unat (m AND 63)),
     MoveTo = (\<lambda>m. unat (drop_bit 6 m AND 63)),
     MoveType = (\<lambda>m. let t = unat (drop_bit 12 m AND 3)
                     in if t = 0 then NORMAL_MOVE else if t = 1 then CASTLE_MOVE
                        else if t = 2 then ENPASS_MOVE else PROMOTION_MOVE),
     MovePromoPiece = (\<lambda>m. 1 + unat (drop_bit 14 m)),
     pieceType = (\<lambda>p. p div 4),
     EMPTY = 26,
     allAttackersToSquare = (\<lambda>board occ sq. if sq = 35 then 0x100004000008 else 0),
     bishopAttacks = (\<lambda>sq occ. 0),
     rookAttacks = (\<lambda>sq occ. 0) \<rparr>"

text \<open>
  White: king e1, rook d1, pawn c4. Black: king e8, knight d5, pawn e6. White to move;
  the rook can take the knight, the pawn on e6 retakes, and the pawn on c4 takes back.
\<close>

definition exchangeBoard :: Board where
  "exchangeBoard = \<lparr>
     squares = (\<lambda>s. if s = 3 then 12 else if s = 4 then 20 else if s = 26 then 0
                     else if s = 35 then 5 else if s = 44 then 1 else if s = 60 then 21
                     else 26),
     pieces = (\<lambda>t. if t = 0 then 0x100004000000 else if t = 1 then 0x800000000
                    else if t = 3 then 0x8 else if t = 5 then 0x1000000000000010 else 0),
     colours = (\<lambda>c. if c = WHITE then 0x4000018 else 0x1000100800000000),
     turn = WHITE, epSquare = 64, kingAttackers = 0, hash = 1 \<rparr>"

text \<open>The move d1 to d5: origin 3, target 35.\<close>

definition rookTakesKnight :: move where
  "rookTakesKnight = 2243"

text \<open>
  Sample collaborators. The state \<open>ext\<close> is the list of the entries stored into the
  transposition table, latest first; no probe ever hits, no position is drawn, the static
  evaluation is 0, and nothing aborts. A move picker is the list of the moves it still has
  to give: at height 0 the rook capture and then move 99, at heights 1 and 2 move 99
  only, nothing above, and no noisy move anywhere. Move 99 is illegal, every other move
  is legal; making and taking back a move leave the thread as it is.
\<close>

type_synonym stored = "64 word \<times> move \<times> int \<times> int \<times> int \<times> bound"

definition sampleExtern :: "(stored list, move list) extern" where
  "sampleExtern = \<lparr> NONE_MOVE = 0, NULL_MOVE = 11,
     abortRequested = (\<lambda>th. False),
     boardIsDrawn = (\<lambda>b h. False),
     evaluateBoard = (\<lambda>th. (0, th)),
     getTTEntry = (\<lambda>th h. None),
     storeTTEntry = (\<lambda>th h m v e d b. th\<lparr>ext := (h, m, v, e, d, b) # ext th\<rparr>),
     tablebasesProbeWDL = (\<lambda>b d h. TB_RESULT_FAILED),
     applyMove = (\<lambda>th m h. (m \<noteq> 99, th)),
     revertMove = (\<lambda>th m h. th),
     initMovePicker = (\<lambda>th m h. if h = 0 then [2243, 99]
                                 else if h = 1 \<or> h = 2 then [99] else []),
     initNoisyMovePicker = (\<lambda>th margin. []),
     selectNextMove = (\<lambda>p th skipQuiets. case p of [] \<Rightarrow> (0, []) | m # ms \<Rightarrow> (m, ms)),
     pastGoodNoisy = (\<lambda>p. False),
     killer1 = (\<lambda>p. 0), killer2 = (\<lambda>p. 0), counter = (\<lambda>p. 0),
     getHistory = (\<lambda>th m h. (0, 0, 0)),
     updateHistoryHeuristics = (\<lambda>th q n h b. th),
     reportBounds = (\<lambda>th a b v. th) \<rparr>"

definition sampleThread :: "stored list Thread" where
  "sampleThread = \<lparr> board = exchangeBoard, seldepth = 0, nodes = 0, tbhits = 0,
     evalStack = (\<lambda>h. 0), moveStack = (\<lambda>h. 0), killers = (\<lambda>h. (0, 0)), ext = [] \<rparr>"

text \<open>
  The values with which the move loop starts and ends in sample calls: at the root
  with depth 1 on the window \<open>[-10, 10]\<close>, at height 1 with the same depth and window,
  the same at height 1 on \<open>checkThread\<close>, where the side to move is in check (the
  bitboard of checking pieces holds the pawn on e6), and, for null move pruning, the values before step 9 at height 2 with depth 9 on the
  window \<open>[-1, 0]\<close>, and the result of the search of the null move.
\<close>

definition rootCtx :: "stored list searchCtx" where
  "rootCtx = projr (searchBeforeLoop sampleParams sampleExtern (qsearch sampleParams sampleExtern 4)
                      (search sampleParams sampleLib sampleExtern 4) 4 sampleThread (- 10) 10 1 0)"

definition rootFinal :: "(stored list, move list) mstate" where
  "rootFinal = result (mainLoop sampleParams sampleLib sampleExtern
                         (search sampleParams sampleLib sampleExtern 4) 4 rootCtx (- 10) 10 0)"

definition innerCtx :: "stored list searchCtx" where
  "innerCtx = projr (searchBeforeLoop sampleParams sampleExtern (qsearch sampleParams sampleExtern 4)
                       (search sampleParams sampleLib sampleExtern 4) 4 sampleThread (- 10) 10 1 1)"

definition innerFinal :: "(stored list, move list) mstate" where
  "innerFinal = result (mainLoop sampleParams sampleLib sampleExtern
                          (search sampleParams sampleLib sampleExtern 4) 4 innerCtx (- 10) 10 1)"

definition checkThread :: "stored list Thread" where
  "checkThread = sampleThread\<lparr>board := exchangeBoard\<lparr>kingAttackers := 0x100000000000\<rparr>\<rparr>"

definition checkCtx :: "stored list searchCtx" where
  "checkCtx = projr (searchBeforeLoop sampleParams sampleExtern (qsearch sampleParams sampleExtern 4)
                       (search sampleParams sampleLib sampleExtern 4) 4 checkThread (- 10) 10 1 1)"

definition checkFinal :: "(stored list, move list) mstate" where
  "checkFinal = result (mainLoop sampleParams sampleLib sampleExtern
                          (search sampleParams sampleLib sampleExtern 4) 4 checkCtx (- 10) 10 1)"

definition nullCtx :: "stored list searchCtx" where
  "nullCtx = projr (searchBeforeMoves sampleParams sampleExtern (qsearch sampleParams sampleExtern 3)
                      sampleThread (- 1) 0 9 2)"

definition nullChild :: "int \<times> move list \<times> stored list Thread" where
  "nullChild = result (search sampleParams sampleLib sampleExtern 3 (cThread nullCtx) (- 0)
                         (- 0 + 1) (cDepth nullCtx - 5) (2 + 1))"

text \<open>
  Collaborators for a quiescence search with one capture: the static evaluation is -5 at
  the first node and -8 below, and only the first node has a noisy move.
\<close>

definition captureExtern :: "(stored list, move list) extern" where
  "captureExtern = sampleExtern\<lparr>
     evaluateBoard := (\<lambda>th. (if nodes th = 1 then - 5 else - 8, th)),
     initNoisyMovePicker := (\<lambda>th margin. if nodes th = 1 then [2243] else []) \<rparr>"

section \<open>Properties of the score helpers\<close>

lemma int32_id: "- (2 ^ 31) \<le> x \<Longrightarrow> x < 2 ^ 31 \<Longrightarrow> int32 x = x"
  by (simp add: int32_def)

lemma score_shift_in_range:
  assumes "MATE P + MAX_PLY P < 2 ^ 31" and "\<bar>v\<bar> \<le> MATE P" and "0 \<le> h" and "h \<le> MAX_PLY P"
  shows "int32 (v + h) = v + h \<and> int32 (v - h) = v - h"
proof -
  from assms have "- (2 ^ 31) \<le> v - h" "v + h < 2 ^ 31" by simp_all
  with assms(3) show ?thesis by (simp add: int32_id)
qed

lemma int32_range: "- (2 ^ 31) \<le> int32 x \<and> int32 x < 2 ^ 31"
proof -
  have "0 \<le> (x + 2 ^ 31) mod 2 ^ 32" "(x + 2 ^ 31) mod 2 ^ 32 < (2 ^ 32 :: int)"
    by simp_all
  then show ?thesis by (simp add: int32_def)
qed




section \<open>Properties of the best tactical move value\<close>

lemma upt6: "[0..<6] = [0, 1, 2, 3, 4, 5::nat]"
  by (simp add: upt_rec numeral_nat)

lemma strongestTarget_QUEEN:
  "strongestTarget P b T v QUEEN =
     (if T AND pieces b QUEEN \<noteq> 0 then SEEPieceValues P QUEEN
      else if T AND pieces b ROOK \<noteq> 0 then SEEPieceValues P ROOK
      else if T AND pieces b BISHOP \<noteq> 0 then SEEPieceValues P BISHOP
      else if T AND pieces b KNIGHT \<noteq> 0 then SEEPieceValues P KNIGHT
      else v)"
  by (simp add: QUEEN_def ROOK_def BISHOP_def KNIGHT_def numeral_nat)

text \<open>
  Claim C7, as stated, fails: with only a king left to the enemy, the strongest enemy
  piece present is the king, of value 0 in the sample table, while
  \<open>bestTacticalMoveValue\<close> starts from the value of a pawn and looks for queen, rook,
  bishop and knight only, so it answers 100.
\<close>

theorem bestTacticalMoveValue_bare_king:
  "bestTacticalMoveValue sampleParams bareKings = 100
   \<and> spec_bestTacticalMoveValue sampleParams bareKings = 0"
  by code_simp

text \<open>
  Claim C7, amended. When the piece values do not decrease from king to pawn, knight,
  bishop, rook and queen: on every brd where the enemy has a pawn, knight, bishop, rook
  or queen, \<open>bestTacticalMoveValue\<close> is the value of the strongest enemy piece present,
  plus \<open>value(queen) - value(pawn)\<close> when the side to move has a pawn on its seventh
  rank; on every other brd (the enemy has a bare king) it is the value of a pawn, plus
  the same bonus.
\<close>

theorem bestTacticalMoveValue_strongest:
  assumes "SEEPieceValues P KING \<le> SEEPieceValues P PAWN"
      and "SEEPieceValues P PAWN \<le> SEEPieceValues P KNIGHT"
      and "SEEPieceValues P KNIGHT \<le> SEEPieceValues P BISHOP"
      and "SEEPieceValues P BISHOP \<le> SEEPieceValues P ROOK"
      and "SEEPieceValues P ROOK \<le> SEEPieceValues P QUEEN"
  shows "bestTacticalMoveValue P brd =
     (if enemyHas brd PAWN \<or> enemyHas brd KNIGHT \<or> enemyHas brd BISHOP
          \<or> enemyHas brd ROOK \<or> enemyHas brd QUEEN
      then spec_bestTacticalMoveValue P brd
      else SEEPieceValues P PAWN + promoBonus P brd)"
  using assms
  unfolding bestTacticalMoveValue_def spec_bestTacticalMoveValue_def
    spec_strongestEnemyValue_def enemyPieceTypes_def upt6 Let_def strongestTarget_QUEEN
    enemyHas_def promoBonus_def
  by (simp add: QUEEN_def ROOK_def BISHOP_def KNIGHT_def PAWN_def KING_def max_def)

lemma sample_order:
  "SEEPieceValues sampleParams KING \<le> SEEPieceValues sampleParams PAWN"
  "SEEPieceValues sampleParams PAWN \<le> SEEPieceValues sampleParams KNIGHT"
  "SEEPieceValues sampleParams KNIGHT \<le> SEEPieceValues sampleParams BISHOP"
  "SEEPieceValues sampleParams BISHOP \<le> SEEPieceValues sampleParams ROOK"
  "SEEPieceValues sampleParams ROOK \<le> SEEPieceValues sampleParams QUEEN"
  by (simp_all add: sampleParams_def sampleSEE_def KING_def PAWN_def KNIGHT_def BISHOP_def ROOK_def QUEEN_def)

theorem bestTacticalMoveValue_strongest_witness:
  "enemyHas exchangeBoard KNIGHT \<and>
   bestTacticalMoveValue sampleParams exchangeBoard = spec_bestTacticalMoveValue sampleParams exchangeBoard
   \<and> bestTacticalMoveValue sampleParams exchangeBoard = 450
   \<and> \<not> (enemyHas bareKings PAWN \<or> enemyHas bareKings KNIGHT \<or> enemyHas bareKings BISHOP
          \<or> enemyHas bareKings ROOK \<or> enemyHas bareKings QUEEN)
   \<and> bestTacticalMoveValue sampleParams bareKings = 100"
proof -
  have e: "enemyHas exchangeBoard KNIGHT"
    by (simp add: enemyHas_def exchangeBoard_def KNIGHT_def)
  have n: "\<not> (enemyHas bareKings PAWN \<or> enemyHas bareKings KNIGHT \<or> enemyHas bareKings BISHOP
          \<or> enemyHas bareKings ROOK \<or> enemyHas bareKings QUEEN)"
    by (simp add: enemyHas_def bareKings_def KNIGHT_def PAWN_def BISHOP_def ROOK_def QUEEN_def)
  have v: "spec_bestTacticalMoveValue sampleParams exchangeBoard = 450"
    by code_simp
  have p: "SEEPieceValues sampleParams PAWN + promoBonus sampleParams bareKings = 100"
    by code_simp
  from bestTacticalMoveValue_strongest [OF sample_order, of exchangeBoard]
       bestTacticalMoveValue_strongest [OF sample_order, of bareKings] e n v p
  show ?thesis by simp
qed

section \<open>Properties of the static exchange evaluation\<close>

lemma cnot_cnot [simp]: "cnot (cnot c) = c"
  by (cases c) simp_all

lemma cnot_neq [simp]: "cnot c \<noteq> c" "c \<noteq> cnot c"
  by (cases c; simp)+

lemma neq_cnot: "t \<noteq> c \<Longrightarrow> c = cnot t"
  by (cases t; cases c; simp)

lemma seeMeasure_balance [simp]: "seeMeasure (s\<lparr>balance := b\<rparr>) = seeMeasure s"
  by (simp add: seeMeasure_def)

lemma seeStep_cases:
  obtains
    (noatt) "\<And>b. seeStep P G brd to (s\<lparr>balance := b\<rparr>) = Inl (Loser (colour s))"
  | (undef) "\<And>b. seeStep P G brd to (s\<lparr>balance := b\<rparr>) = Inl Undefined"
  | (capture) v kr s' where
      "\<And>b. seeStep P G brd to (s\<lparr>balance := b\<rparr>) =
         (if int32 (- b - 1 - SEEPieceValues P v) \<ge> 0
          then Inl (Loser (if v = KING \<and> kr then colour s else cnot (colour s)))
          else Inr (s'\<lparr>balance := int32 (- b - 1 - SEEPieceValues P v)\<rparr>))"
      "colour s' = cnot (colour s)"
proof -
  define my where "my = attackers s AND colours brd (colour s)"
  define v where "v = weakestAttacker brd my"
  define mine where "mine = my AND pieces brd v"
  show thesis
  proof (cases "my = 0")
    case True
    then have "\<And>b. seeStep P G brd to (s\<lparr>balance := b\<rparr>) = Inl (Loser (colour s))"
      by (simp add: seeStep_def my_def)
    then show thesis by (rule noatt)
  next
    case nz: False
    show thesis
    proof (cases "mine = 0")
      case True
      with nz have "\<And>b. seeStep P G brd to (s\<lparr>balance := b\<rparr>) = Inl Undefined"
        by (simp add: seeStep_def my_def mine_def v_def Let_def)
      then show thesis by (rule undef)
    next
      case False
      define occ where "occ = occupied s XOR sqbit (getlsb mine)"
      define att where "att = revealAttackers G brd to v occ (attackers s)"
      define s' where "s' = \<lparr> colour = cnot (colour s), occupied = occ, attackers = att, balance = 0 \<rparr>"
      define kr where "kr = (att AND colours brd (cnot (colour s)) \<noteq> 0)"
      have "\<And>b. seeStep P G brd to (s\<lparr>balance := b\<rparr>) =
         (if int32 (- b - 1 - SEEPieceValues P v) \<ge> 0
          then Inl (Loser (if v = KING \<and> kr then colour s else cnot (colour s)))
          else Inr (s'\<lparr>balance := int32 (- b - 1 - SEEPieceValues P v)\<rparr>))"
        using nz False
        unfolding seeStep_def Let_def my_def v_def mine_def occ_def att_def kr_def s'_def
        by auto
      moreover have "colour s' = cnot (colour s)" by (simp add: s'_def)
      ultimately show thesis by (rule capture)
    qed
  qed
qed

lemma seeLoop_mono:
  assumes K: "SEEPieceValues P KING \<le> 0"
      and R: "\<And>t. 0 \<le> SEEPieceValues P t \<and> SEEPieceValues P t < 2 ^ 31"
  shows "b1 \<le> b2 \<Longrightarrow> b2 < 0 \<Longrightarrow> - (2 ^ 31) \<le> b1 \<Longrightarrow>
     (seeLoop P G brd to (s\<lparr>balance := b1\<rparr>) = Loser (colour s)
        \<longrightarrow> seeLoop P G brd to (s\<lparr>balance := b2\<rparr>) = Loser (colour s))
   \<and> (seeLoop P G brd to (s\<lparr>balance := b2\<rparr>) = Loser (cnot (colour s))
        \<longrightarrow> seeLoop P G brd to (s\<lparr>balance := b1\<rparr>) = Loser (cnot (colour s)))"
proof (induction "seeMeasure s" arbitrary: s b1 b2 rule: less_induct)
  case less
  show ?case
  proof (cases rule: seeStep_cases [of P G brd to s])
    case noatt
    then show ?thesis by (simp add: seeLoop.simps [of P G brd to "s\<lparr>balance := _\<rparr>"])
  next
    case undef
    then show ?thesis by (simp add: seeLoop.simps [of P G brd to "s\<lparr>balance := _\<rparr>"])
  next
    case (capture v kr s')
    let ?c1 = "- b1 - 1 - SEEPieceValues P v"
    let ?c2 = "- b2 - 1 - SEEPieceValues P v"
    have c: "?c2 \<le> ?c1" using less.prems by simp
    have r1: "- (2 ^ 31) \<le> ?c1" "?c1 < 2 ^ 31" using less.prems R [of v] by simp_all
    have r2: "- (2 ^ 31) \<le> ?c2" "?c2 < 2 ^ 31" using less.prems R [of v] by simp_all
    have w: "int32 ?c1 = ?c1" "int32 ?c2 = ?c2"
      using r1 r2 by (simp_all add: int32_id)
    have kingstop: "v = KING \<Longrightarrow> ?c2 \<ge> 0" using K less.prems by simp
    have L: "\<And>b. seeLoop P G brd to (s\<lparr>balance := b\<rparr>) =
         (if int32 (- b - 1 - SEEPieceValues P v) \<ge> 0
          then Loser (if v = KING \<and> kr then colour s else cnot (colour s))
          else seeLoop P G brd to (s'\<lparr>balance := int32 (- b - 1 - SEEPieceValues P v)\<rparr>))"
      by (subst seeLoop.simps) (simp add: capture(1))
    show ?thesis
    proof (cases "?c1 < 0")
      case True
      with c have c2: "?c2 < 0" by simp
      have "seeStep P G brd to (s\<lparr>balance := b1\<rparr>) = Inr (s'\<lparr>balance := ?c1\<rparr>)"
        using True by (simp add: capture(1) w)
      from seeStep_decreases [OF this]
      have m: "seeMeasure s' < seeMeasure s" by simp
      from less.hyps [OF m c True r2(1)] capture(2) True c2 show ?thesis
        by (simp add: L w)
    next
      case False
      then have c1: "?c1 \<ge> 0" by simp
      show ?thesis
      proof (cases "?c2 < 0")
        case True
        with kingstop have nk: "v \<noteq> KING" by auto
        from True c1 nk show ?thesis
          by (simp add: L w)
      next
        case False
        with c1 show ?thesis by (simp add: L w)
      qed
    qed
  qed
qed

lemma see_unfold:
  "staticExchangeEvaluation P G brd m t =
     (let g = thisTacticalMoveValue P G brd m;
          v = SEEPieceValues P (if MoveType G m \<noteq> PROMOTION_MOVE
                        then pieceType G (squares brd (MoveFrom G m)) else MovePromoPiece G m);
          occ = colours brd WHITE OR colours brd BLACK;
          occ = (occ XOR sqbit (MoveFrom G m)) OR sqbit (MoveTo G m);
          occ = (if MoveType G m = ENPASS_MOVE then occ XOR sqbit (epSquare brd) else occ);
          s0 = \<lparr> colour = cnot (turn brd), occupied = occ,
                 attackers = allAttackersToSquare G brd occ (MoveTo G m) AND occ, balance = 0 \<rparr>
      in if int32 (g - t) < 0 then Some False
         else if int32 (int32 (g - t) - v) \<ge> 0 then Some True
         else case seeLoop P G brd (MoveTo G m) (s0\<lparr>balance := int32 (int32 (g - t) - v)\<rparr>) of
                Undefined \<Rightarrow> None
              | Loser c \<Rightarrow> Some (turn brd \<noteq> c))"
  by (simp add: staticExchangeEvaluation_def Let_def)

text \<open>
  Claim C9, as stated, fails: the first step of \<^verbatim>\<open>staticExchangeEvaluation\<close> subtracts
  the threshold from the value of the move in \<^verbatim>\<open>int\<close>. On the sample board the rook
  capture passes the threshold \<open>-200\<close>; for the least \<^verbatim>\<open>int\<close> as threshold the difference
  \<open>450 + 2147483648\<close> wraps around to a negative balance and the evaluation returns 0.
\<close>

theorem see_threshold_overflow:
  "(- 2147483648 :: int) \<le> - 200
   \<and> staticExchangeEvaluation sampleParams sampleLib exchangeBoard rookTakesKnight (- 200)
       = Some True
   \<and> staticExchangeEvaluation sampleParams sampleLib exchangeBoard rookTakesKnight
        (- 2147483648) = Some False"
  by code_simp

text \<open>
  Claim C9, amended. When the exchange values are \<^verbatim>\<open>int\<close> values that are not negative
  and the king has value 0 (the comment in \<^verbatim>\<open>staticExchangeEvaluation\<close> says so), the
  evaluation is monotone in its threshold over all thresholds \<open>t1 \<le> t2\<close> for which the
  value of the move minus the threshold stays in the range of \<^verbatim>\<open>int\<close>: if it returns 1 for
  \<open>t2\<close>, it returns 1 for \<open>t1\<close>.
\<close>

theorem see_monotone_threshold:
  assumes K: "SEEPieceValues P KING \<le> 0"
      and R: "\<And>t. 0 \<le> SEEPieceValues P t \<and> SEEPieceValues P t < 2 ^ 31"
      and le: "t1 \<le> t2"
      and lo: "- (2 ^ 31) \<le> thisTacticalMoveValue P G brd m - t2"
      and hi: "thisTacticalMoveValue P G brd m - t1 < 2 ^ 31"
      and t2: "staticExchangeEvaluation P G brd m t2 = Some True"
  shows "staticExchangeEvaluation P G brd m t1 = Some True"
proof -
  define g where "g = thisTacticalMoveValue P G brd m"
  define v where "v = SEEPieceValues P (if MoveType G m \<noteq> PROMOTION_MOVE
                        then pieceType G (squares brd (MoveFrom G m)) else MovePromoPiece G m)"
  define occ where "occ = (let occ = colours brd WHITE OR colours brd BLACK;
          occ = (occ XOR sqbit (MoveFrom G m)) OR sqbit (MoveTo G m)
        in if MoveType G m = ENPASS_MOVE then occ XOR sqbit (epSquare brd) else occ)"
  define s0 where "s0 = \<lparr> colour = cnot (turn brd), occupied = occ,
                 attackers = allAttackersToSquare G brd occ (MoveTo G m) AND occ, balance = 0 \<rparr>"
  have U0: "\<And>t. staticExchangeEvaluation P G brd m t =
      (if int32 (g - t) < 0 then Some False
         else if int32 (int32 (g - t) - v) \<ge> 0 then Some True
         else case seeLoop P G brd (MoveTo G m) (s0\<lparr>balance := int32 (int32 (g - t) - v)\<rparr>) of
                Undefined \<Rightarrow> None
              | Loser c \<Rightarrow> Some (turn brd \<noteq> c))"
    unfolding see_unfold g_def v_def occ_def s0_def Let_def by simp
  have vr: "0 \<le> v" "v < 2 ^ 31" using R by (simp_all add: v_def)
  have w1: "int32 (g - t1) = g - t1" and w2: "int32 (g - t2) = g - t2"
    using lo hi le by (simp_all add: int32_id g_def)
  have U: "\<And>t. t = t1 \<or> t = t2 \<Longrightarrow> \<not> g - t < 0 \<Longrightarrow> staticExchangeEvaluation P G brd m t =
      (if g - t - v \<ge> 0 then Some True
         else case seeLoop P G brd (MoveTo G m) (s0\<lparr>balance := g - t - v\<rparr>) of
                Undefined \<Rightarrow> None
              | Loser c \<Rightarrow> Some (turn brd \<noteq> c))"
  proof -
    fix t assume t: "t = t1 \<or> t = t2" and pos: "\<not> g - t < 0"
    from t w1 w2 have w: "int32 (g - t) = g - t" by auto
    from t lo hi le have "g - t < 2 ^ 31" by (auto simp: g_def)
    with pos vr have "int32 (g - t - v) = g - t - v" by (simp add: int32_id)
    with w pos show "staticExchangeEvaluation P G brd m t =
      (if g - t - v \<ge> 0 then Some True
         else case seeLoop P G brd (MoveTo G m) (s0\<lparr>balance := g - t - v\<rparr>) of
                Undefined \<Rightarrow> None
              | Loser c \<Rightarrow> Some (turn brd \<noteq> c))"
      by (simp add: U0)
  qed
  have c0: "colour s0 = cnot (turn brd)" by (simp add: s0_def)
  from t2 have g2: "\<not> g - t2 < 0" by (simp add: U0 w2 split: if_splits)
  with le have g1: "\<not> g - t1 < 0" by simp
  show ?thesis
  proof (cases "g - t1 - v \<ge> 0")
    case True
    with g1 show ?thesis by (simp add: U)
  next
    case False
    then have b1: "g - t1 - v < 0" by simp
    with le have b2: "\<not> g - t2 - v \<ge> 0" by simp
    from t2 g2 b2 have "seeLoop P G brd (MoveTo G m) (s0\<lparr>balance := g - t2 - v\<rparr>)
                        = Loser (colour s0)"
      by (auto simp: U c0 split: seeOutcome.splits dest: neq_cnot)
    moreover have "g - t2 - v \<le> g - t1 - v" using le by simp
    moreover have "- (2 ^ 31) \<le> g - t2 - v" using g2 vr by simp
    ultimately have "seeLoop P G brd (MoveTo G m) (s0\<lparr>balance := g - t1 - v\<rparr>)
                        = Loser (colour s0)"
      using seeLoop_mono [OF K R _ b1, of "g - t2 - v" G brd "MoveTo G m" s0] by blast
    with g1 False show ?thesis by (simp add: U c0)
  qed
qed

theorem see_monotone_threshold_witness:
  "staticExchangeEvaluation sampleParams sampleLib exchangeBoard rookTakesKnight (- 200) = Some True
   \<and> staticExchangeEvaluation sampleParams sampleLib exchangeBoard rookTakesKnight (- 300) = Some True"
proof -
  have k: "SEEPieceValues sampleParams KING \<le> 0" by code_simp
  have r: "\<And>t. 0 \<le> SEEPieceValues sampleParams t \<and> SEEPieceValues sampleParams t < 2 ^ 31"
    by (simp add: sampleParams_def sampleSEE_def)
  have l: "(-300::int) \<le> -200" by simp
  have g: "thisTacticalMoveValue sampleParams sampleLib exchangeBoard rookTakesKnight = 450"
    by code_simp
  have lo: "- (2 ^ 31) \<le> thisTacticalMoveValue sampleParams sampleLib exchangeBoard
                             rookTakesKnight - (- 200)"
    unfolding g by simp
  have hi: "thisTacticalMoveValue sampleParams sampleLib exchangeBoard rookTakesKnight
              - (- 300) < 2 ^ 31"
    unfolding g by simp
  have t: "staticExchangeEvaluation sampleParams sampleLib exchangeBoard rookTakesKnight (-200) = Some True"
    by code_simp
  from see_monotone_threshold [OF k r l lo hi t] t show ?thesis by simp
qed

section \<open>Loops with fuel\<close>

lemma loopFuel_invariant:
  assumes "loopFuel body n s = Value r"
      and "I s"
      and step: "\<And>s s'. I s \<Longrightarrow> body s = Inr s' \<Longrightarrow> I s'"
      and fin: "\<And>s r. I s \<Longrightarrow> body s = Inl (Value r) \<Longrightarrow> Q r"
  shows "Q r"
  using assms(1,2)
proof (induction n arbitrary: s)
  case 0
  then show ?case by simp
next
  case (Suc n)
  show ?case
  proof (cases "body s")
    case (Inl x)
    with Suc.prems have "body s = Inl (Value r)" by simp
    from fin [OF Suc.prems(2) this] show ?thesis .
  next
    case (Inr s')
    with Suc.prems have "loopFuel body n s' = Value r" by simp
    moreover from step [OF Suc.prems(2) Inr] have "I s'" .
    ultimately show ?thesis by (rule Suc.IH)
  qed
qed

section \<open>Properties of the quiescence search\<close>

text \<open>
  Claim C6. In \<^verbatim>\<open>qsearch\<close>, when nothing aborts, the position is not drawn, the height
  is below \<open>MAX_PLY\<close> and the table probe gives no cutoff: with \<open>eval\<close> the evaluation of
  the table entry if it has one and the static evaluation otherwise, \<^verbatim>\<open>qsearch\<close>
  returns \<open>eval\<close> if \<open>max(alpha, eval) \<ge> beta\<close>, and also if the best tactical move value
  is below \<open>alpha - eval - QFutilityMargin\<close>, for the \<open>alpha\<close> of the call as well as for
  the raised one. The variation is empty, and no move is looked at: the thread returned is
  the one left by the evaluation, whatever the move picker and \<^verbatim>\<open>apply\<close> would do.
\<close>

theorem qsearch_stand_pat:
  assumes th1: "th1 = th\<lparr>seldepth := max (seldepth th) height, nodes := nodes th + 1\<rparr>"
      and noabort: "\<not> abortRequested E th1"
      and nodraw: "\<not> boardIsDrawn E (board th1) height"
      and ply: "height < MAX_PLY P"
      and tt: "tt = getTTEntry E th1 (hash (board th1))"
      and nocut: "\<forall>e. tt = Some e \<longrightarrow>
                    \<not> boundCuts (entryBound e) (valueFromTT P (entryValue e) height) alpha beta"
      and ev: "(eval, th2) = (case tt of
                   None \<Rightarrow> evaluateBoard E th1
                 | Some e \<Rightarrow> if entryEval e \<noteq> VALUE_NONE P then (entryEval e, th1)
                             else evaluateBoard E th1)"
      and prune0: "max alpha eval \<ge> beta
                  \<or> bestTacticalMoveValue P (board th2) < max alpha eval - eval - QFutilityMargin P
                  \<or> bestTacticalMoveValue P (board th2) < alpha - eval - QFutilityMargin P"
  shows "qsearch P (E\<lparr>initNoisyMovePicker := ip, selectNextMove := sel, applyMove := ap\<rparr>)
           (Suc n) th alpha beta height
         = Value (eval, [], th2)"
proof -
  let ?E = "E\<lparr>initNoisyMovePicker := ip, selectNextMove := sel, applyMove := ap\<rparr>"
  from prune0 have prune: "max alpha eval \<ge> beta
      \<or> bestTacticalMoveValue P (board th2) < max alpha eval - eval - QFutilityMargin P"
    by (auto simp: max_def)
  have se: "staticEval P ?E tt th1 = (eval, th2)"
    using ev by (simp add: staticEval_def split: option.splits)
  have g: "getTTEntry ?E th1 (hash (board th1)) = tt" by (simp add: tt)
  have pre: "\<not> abortRequested ?E th1" "\<not> boardIsDrawn ?E (board th1) height"
    using noabort nodraw by simp_all
  show ?thesis
  proof (cases tt)
    case None
    with pre ply prune se show ?thesis
      unfolding qsearch.simps qsearchBody_def Let_def th1 [symmetric] g
      by auto
  next
    case (Some e)
    with nocut have "\<not> boundCuts (entryBound e) (valueFromTT P (entryValue e) height) alpha beta"
      by simp
    with Some pre ply prune se show ?thesis
      unfolding qsearch.simps qsearchBody_def Let_def th1 [symmetric] g
      by auto
  qed
qed

theorem qsearch_stand_pat_witness:
  "qsearch sampleParams
     (sampleExtern\<lparr>initNoisyMovePicker := (\<lambda>th m. [2243]),
                   selectNextMove := (\<lambda>p th s. (2243, p)),
                   applyMove := (\<lambda>th m h. (True, th))\<rparr>)
     (Suc 0) sampleThread (- 10) 0 1
   = Value (0, [], sampleThread\<lparr>seldepth := 1, nodes := 1\<rparr>)"
proof -
  let ?th = "sampleThread\<lparr>seldepth := 1, nodes := 1\<rparr>"
  have 1: "?th = sampleThread\<lparr>seldepth := max (seldepth sampleThread) 1,
                          nodes := nodes sampleThread + 1\<rparr>"
    by (simp add: sampleThread_def)
  have 2: "\<not> abortRequested sampleExtern ?th" by (simp add: sampleExtern_def)
  have 3: "\<not> boardIsDrawn sampleExtern (board ?th) 1" by (simp add: sampleExtern_def)
  have 4: "1 < MAX_PLY sampleParams" by (simp add: sampleParams_def)
  have 5: "None = getTTEntry sampleExtern ?th (hash (board ?th))"
    by (simp add: sampleExtern_def)
  have 6: "\<forall>e. (None :: ttEntry option) = Some e \<longrightarrow>
             \<not> boundCuts (entryBound e) (valueFromTT sampleParams (entryValue e) 1) (- 10) 0"
    by simp
  have 7: "(0, ?th) = (case (None :: ttEntry option) of
                   None \<Rightarrow> evaluateBoard sampleExtern ?th
                 | Some e \<Rightarrow> if entryEval e \<noteq> VALUE_NONE sampleParams then (entryEval e, ?th)
                             else evaluateBoard sampleExtern ?th)"
    by (simp add: sampleExtern_def)
  have 8: "max (- 10) 0 \<ge> (0::int)
           \<or> bestTacticalMoveValue sampleParams (board ?th)
               < max (- 10) 0 - 0 - QFutilityMargin sampleParams
           \<or> bestTacticalMoveValue sampleParams (board ?th)
               < - 10 - 0 - QFutilityMargin sampleParams"
    by simp
  from qsearch_stand_pat [OF 1 2 3 4 5 6 7 8, where ip = "\<lambda>th m. [2243]"
      and sel = "\<lambda>p th s. (2243, p)" and ap = "\<lambda>th m h. (True, th)" and n = 0]
  show ?thesis .
qed


section \<open>Properties of the search\<close>

lemma cdiv_nonneg: "0 \<le> a \<Longrightarrow> 0 < b \<Longrightarrow> cdiv a b = a div b"
  by (simp add: cdiv_def)

text \<open>
  Claim C3. A call of \<^verbatim>\<open>search\<close> away from the root (\<open>height > 0\<close>) that does not drop
  into \<^verbatim>\<open>qsearch\<close>, is not aborted, is not drawn and has \<open>height < MAX_PLY\<close> returns
  \<open>rAlpha = max(alpha, -MATE + height)\<close> when \<open>rAlpha \<ge> rBeta = min(beta, MATE - height - 1)\<close>.
  It does so before any probe: the result is the same whatever the transposition table
  and the tablebases answer, and the thread has changed in its counters only.
\<close>

theorem mate_distance_pruning:
  assumes nonroot: "height > 0"
      and noq: "\<not> (depth \<le> 0 \<and> kingAttackers (board th) = 0)"
      and th': "th' = th\<lparr>seldepth := max (seldepth th) height, nodes := nodes th + 1\<rparr>"
      and noabort: "\<not> abortRequested E th'"
      and nodraw: "\<not> boardIsDrawn E (board th) height"
      and ply: "height < MAX_PLY P"
      and cut: "max alpha (- MATE P + height) \<ge> min beta (MATE P - height - 1)"
  shows "search P G (E\<lparr>getTTEntry := probe, tablebasesProbeWDL := tb, storeTTEntry := store\<rparr>)
           (Suc n) th alpha beta depth height
         = Value (max alpha (- MATE P + height), [], th')"
proof -
  let ?E = "E\<lparr>getTTEntry := probe, tablebasesProbeWDL := tb, storeTTEntry := store\<rparr>"
  have ma: "mateAlpha P alpha height = max alpha (- MATE P + height)"
    by (simp add: mateAlpha_def max_def)
  have mb: "mateBeta P beta height = min beta (MATE P - height - 1)"
    by (simp add: mateBeta_def min_def)
  have "searchEarlyExits P ?E (qsearch P ?E n) th alpha beta depth height
        = Inl (Value (max alpha (- MATE P + height), [], th'))"
    using nonroot noq noabort nodraw ply cut
    unfolding searchEarlyExits_def Let_def ma mb th'
    by auto
  then show ?thesis
    by (simp add: searchBody_def searchBeforeLoop_def searchBeforeMoves_def)
qed

theorem mate_distance_pruning_witness:
  "search sampleParams sampleLib
     (sampleExtern\<lparr>getTTEntry := (\<lambda>th h. None), tablebasesProbeWDL := (\<lambda>b d h. TB_WIN),
                   storeTTEntry := (\<lambda>th h m v e d b. th)\<rparr>)
     (Suc 0) sampleThread 31999 32000 1 1
   = Value (31999, [], sampleThread\<lparr>seldepth := 1, nodes := 1\<rparr>)"
proof -
  have 1: "(1::int) > 0" by simp
  have 2: "\<not> ((1::int) \<le> 0 \<and> kingAttackers (board sampleThread) = 0)" by simp
  have 3: "sampleThread\<lparr>seldepth := 1, nodes := 1\<rparr>
           = sampleThread\<lparr>seldepth := max (seldepth sampleThread) 1,
                          nodes := nodes sampleThread + 1\<rparr>"
    by (simp add: sampleThread_def)
  have 4: "\<not> abortRequested sampleExtern (sampleThread\<lparr>seldepth := 1, nodes := 1\<rparr>)"
    by (simp add: sampleExtern_def)
  have 5: "\<not> boardIsDrawn sampleExtern (board sampleThread) 1"
    by (simp add: sampleExtern_def)
  have 6: "1 < MAX_PLY sampleParams" by (simp add: sampleParams_def)
  have 7: "max 31999 (- MATE sampleParams + 1) \<ge> min 32000 (MATE sampleParams - 1 - 1)"
    by (simp add: sampleParams_def)
  have 8: "max 31999 (- MATE sampleParams + 1) = 31999"
    by (simp add: sampleParams_def)
  from mate_distance_pruning [OF 1 2 3 4 5 6 7, where G = sampleLib
      and probe = "\<lambda>th h. None" and tb = "\<lambda>b d h. TB_WIN"
      and store = "\<lambda>th h m v e d b. th" and n = 0]
  show ?thesis unfolding 8 .
qed



lemma searchEarlyExits_depth:
  "searchEarlyExits P E Q th alpha beta depth height = Inr (th', d) \<Longrightarrow> d = max 0 depth"
  by (auto simp: searchEarlyExits_def Let_def split: if_splits prod.splits)

lemma searchProbe_depth:
  "searchProbe P E th alpha beta depth height = Inr c \<Longrightarrow> cDepth c = depth"
  by (auto simp: searchProbe_def Let_def split: if_splits prod.splits)

lemma searchBeforeMoves_depth:
  assumes "searchBeforeMoves P E Q th alpha beta depth height = Inr c"
  shows "cDepth c = max 0 depth"
proof -
  from assms obtain th1 d c1 where
    1: "searchEarlyExits P E Q th alpha beta depth height = Inr (th1, d)" and
    2: "searchProbe P E th1 alpha beta d height = Inr c1" and
    3: "searchStaticPruning P Q c1 alpha beta height = Inr c"
    by (auto simp: searchBeforeMoves_def split: sum.splits prod.splits)
  from 3 have "c = c1"
    by (auto simp: searchStaticPruning_def Let_def split: if_splits)
  with searchEarlyExits_depth [OF 1] searchProbe_depth [OF 2] show ?thesis by simp
qed

text \<open>
  Claim C5. When \<^verbatim>\<open>search\<close> gets to step 9 and the conditions of null move pruning hold
  (the node is not a PV node, the side to move is not in check,
  \<open>depth \<ge> NullMovePruningDepth\<close>, \<open>eval \<ge> beta\<close>, it has a piece other than king and
  pawns, neither of the last two moves was a null move, and the table does not refute),
  and the search of the null move at depth \<open>depth - R\<close> on the window
  \<open>[-beta, -beta + 1]\<close>, with \<open>R = 4 + depth / 6 + min(3, (eval - beta) / 200)\<close>, comes back
  with a value whose negation is at least \<open>beta\<close>, then \<^verbatim>\<open>search\<close> returns \<open>beta\<close> itself.
\<close>

theorem null_move_fail_hard:
  assumes before: "searchBeforeMoves P E (qsearch P E n) th alpha beta depth height = Inr c"
      and nonpv: "alpha = beta - 1"
      and nocheck: "\<not> cInCheck c"
      and deep: "cDepth c \<ge> NullMovePruningDepth P"
      and good: "cEval c \<ge> beta"
      and material: "hasNonPawnMaterial (board (cThread c)) (turn (board (cThread c)))"
      and last1: "moveStack (cThread c) (height - 1) \<noteq> NULL_MOVE E"
      and last2: "moveStack (cThread c) (height - 2) \<noteq> NULL_MOVE E"
      and table: "\<not> cTtHit c \<or> \<not> hasUpper (cTtBound c) \<or> cTtValue c \<ge> beta"
      and R: "R = 4 + cDepth c div 6 + min 3 ((cEval c - beta) div 200)"
      and made: "applyMove E (cThread c) (NULL_MOVE E) height = (legal, th1)"
      and child: "search P G E n th1 (- beta) (- beta + 1) (cDepth c - R) (height + 1)
                    = Value (v, lpv, th2)"
      and high: "- v \<ge> beta"
  shows "search P G E (Suc n) th alpha beta depth height
         = Value (beta, [], revertMove E th2 (NULL_MOVE E) height)"
proof -
  have d: "0 \<le> cDepth c"
    using searchBeforeMoves_depth [OF before] by simp
  have applies: "nullMoveApplies P E c alpha beta height"
    using nonpv nocheck deep good material last1 last2 table
    by (simp add: nullMoveApplies_def Let_def)
  from good have e: "0 \<le> cEval c - beta" by simp
  have "nullMoveReduction c beta = R"
    by (simp add: nullMoveReduction_def R cdiv_nonneg [OF d] cdiv_nonneg [OF e])
  with applies made child high
  have "nullMovePruning P E (search P G E n) c alpha beta height
        = Inl (Value (beta, [], revertMove E th2 (NULL_MOVE E) height))"
    by (simp add: nullMovePruning_def Let_def)
  with before show ?thesis
    by (simp add: searchBody_def searchBeforeLoop_def)
qed

section \<open>Properties of the move loop\<close>

lemma playMove_effect:
  assumes "playMove P E S n c alpha0 beta height m isQuiet st = Inr st'
           \<or> playMove P E S n c alpha0 beta height m isQuiet st = Inl (Value st')"
  shows "(\<exists>th. st' = st\<lparr>mThread := th\<rparr>)
       \<or> (mPlayed st' = mPlayed st + 1
          \<and> mBest st \<le> mBest st' \<and> mAlpha st \<le> mAlpha st'
          \<and> (mPv st' = mPv st \<or> mAlpha st < mBest st'))"
  using assms
  by (auto simp: playMove_def Let_def split: prod.splits if_splits outcome.splits)

lemma mainStep_effect:
  assumes r: "mainStep P G E S n c alpha0 beta height st0 = Inr st'
              \<or> mainStep P G E S n c alpha0 beta height st0 = Inl (Value st')"
  shows "(mPlayed st' = mPlayed st0 \<and> mBest st' = mBest st0 \<and> mAlpha st' = mAlpha st0
          \<and> mPv st' = mPv st0
          \<and> (mBest st0 \<le> MATED_IN_MAX P \<longrightarrow>
                mPruned st' = mPruned st0 \<and> mSkipQuiets st' = mSkipQuiets st0))
       \<or> (mPlayed st' = mPlayed st0 + 1
          \<and> mBest st0 \<le> mBest st' \<and> mAlpha st0 \<le> mAlpha st'
          \<and> (mPv st' = mPv st0 \<or> mAlpha st0 < mBest st'))"
proof -
  obtain m mp where sel: "selectNextMove E (mPicker st0) (mThread st0) (mSkipQuiets st0) = (m, mp)"
    by (cases "selectNextMove E (mPicker st0) (mThread st0) (mSkipQuiets st0)")
  show ?thesis
  proof (cases "m = NONE_MOVE E")
    case True
    with r sel have "st' = st0\<lparr>mPicker := mp\<rparr>"
      by (simp add: mainStep_def)
    then show ?thesis by simp
  next
    case False
    define isQuiet where "isQuiet = (\<not> moveIsTactical G (board (mThread st0)) m)"
    define st1 where "st1 = (if isQuiet
                    then (case getHistory E (mThread st0) m height of (h, cm, fm) \<Rightarrow>
                            st0\<lparr>mPicker := mp, mQuietsTried := mQuietsTried st0 @ [m],
                               mQuiets := mQuiets st0 + 1,
                               mHist := h, mCmhist := cm, mFmhist := fm\<rparr>)
                    else st0\<lparr>mPicker := mp\<rparr>)"
    define q where "q = (if isQuiet \<and> mBest st1 > MATED_IN_MAX P then quietPruning P c st1
                   else (mSkipQuiets st1, False))"
    define st2 where "st2 = st1\<lparr>mSkipQuiets := fst q\<rparr>"
    have same: "mPlayed st1 = mPlayed st0" "mBest st1 = mBest st0" "mAlpha st1 = mAlpha st0"
      "mPv st1 = mPv st0" "mPruned st1 = mPruned st0" "mSkipQuiets st1 = mSkipQuiets st0"
      by (auto simp: st1_def split: prod.splits)
    have q0: "mBest st0 \<le> MATED_IN_MAX P \<Longrightarrow> q = (mSkipQuiets st0, False)"
      by (simp add: q_def same)
    have same2: "mPlayed st2 = mPlayed st0" "mBest st2 = mBest st0" "mAlpha st2 = mAlpha st0"
      "mPv st2 = mPv st0" "mPruned st2 = mPruned st0"
      "mBest st0 \<le> MATED_IN_MAX P \<Longrightarrow> mSkipQuiets st2 = mSkipQuiets st0"
      using q0 by (simp_all add: st2_def same)
    have unfold: "mainStep P G E S n c alpha0 beta height st0 =
       (if snd q then Inr (st2\<lparr>mPruned := Suc (mPruned st2)\<rparr>)
             else if mBest st2 > MATED_IN_MAX P
                     \<and> cDepth c \<le> SEEPruningDepth P
                     \<and> pastGoodNoisy E mp
             then (case staticExchangeEvaluation P G (board (mThread st2)) m
                          (cSeeMargin c isQuiet) of
                     None \<Rightarrow> Inl (Stop UndefinedExchange)
                   | Some False \<Rightarrow> Inr (st2\<lparr>mPruned := Suc (mPruned st2)\<rparr>)
                   | Some True \<Rightarrow> playMove P E S n c alpha0 beta height m isQuiet st2)
             else playMove P E S n c alpha0 beta height m isQuiet st2)"
      using False sel
      unfolding mainStep_def Let_def st2_def q_def st1_def isQuiet_def
      by (auto split: prod.splits option.splits bool.splits)
    have pruned: "mBest st2 > MATED_IN_MAX P \<or> snd q \<Longrightarrow> st' = st2\<lparr>mPruned := Suc (mPruned st2)\<rparr>
                  \<Longrightarrow> ?thesis"
      using q0 by (auto simp: same2)
    have played: "playMove P E S n c alpha0 beta height m isQuiet st2 = Inr st'
           \<or> playMove P E S n c alpha0 beta height m isQuiet st2 = Inl (Value st') \<Longrightarrow> ?thesis"
      using same2 by (auto dest!: playMove_effect)
    from r show ?thesis
      unfolding unfold
      using pruned played
      by (auto split: if_splits option.splits bool.splits)
  qed
qed

lemma mainLoop_pvInv:
  assumes "mainLoop P G E S n c alpha beta height = Value st"
  shows "pvInv alpha st"
proof (rule loopFuel_invariant [OF assms [unfolded mainLoop_def],
         where I = "pvInv alpha" and Q = "pvInv alpha"])
  show "pvInv alpha (mainInit P E c alpha height)"
    by (simp add: pvInv_def mainInit_def)
next
  fix s s' assume "pvInv alpha s" "mainStep P G E S n c alpha beta height s = Inr s'"
  then show "pvInv alpha s'"
    using mainStep_effect [of P G E S n c alpha beta height s s']
    by (auto simp: pvInv_def)
next
  fix s r assume "pvInv alpha s" "mainStep P G E S n c alpha beta height s = Inl (Value r)"
  then show "pvInv alpha r"
    using mainStep_effect [of P G E S n c alpha beta height s r]
    by (auto simp: pvInv_def)
qed

lemma mainLoop_freshInv:
  assumes ply: "0 \<le> MAX_PLY P"
      and "mainLoop P G E S n c alpha beta height = Value st"
  shows "freshInv P st"
proof (rule loopFuel_invariant [OF assms(2) [unfolded mainLoop_def],
         where I = "freshInv P" and Q = "freshInv P"])
  show "freshInv P (mainInit P E c alpha height)"
    by (simp add: freshInv_def mainInit_def)
next
  fix s s' assume "freshInv P s" "mainStep P G E S n c alpha beta height s = Inr s'"
  then show "freshInv P s'"
    using mainStep_effect [of P G E S n c alpha beta height s s'] ply
    by (auto simp: freshInv_def MATED_IN_MAX_def MATE_IN_MAX_def)
next
  fix s r assume "freshInv P s" "mainStep P G E S n c alpha beta height s = Inl (Value r)"
  then show "freshInv P r"
    using mainStep_effect [of P G E S n c alpha beta height s r] ply
    by (auto simp: freshInv_def MATED_IN_MAX_def MATE_IN_MAX_def)
qed


lemma searchEarlyExits_board:
  "searchEarlyExits P E Q th alpha beta depth height = Inr (th1, d) \<Longrightarrow> board th1 = board th"
  by (auto simp: searchEarlyExits_def Let_def split: if_splits prod.splits)

lemma searchProbe_inCheck:
  "searchProbe P E th1 alpha beta depth height = Inr c \<Longrightarrow>
     cInCheck c = (kingAttackers (board th1) \<noteq> 0)"
  by (auto simp: searchProbe_def Let_def split: if_splits prod.splits)

lemma nullMovePruning_inCheck:
  "nullMovePruning P E S c alpha beta height = Inr c' \<Longrightarrow> cInCheck c' = cInCheck c"
  by (auto simp: nullMovePruning_def Let_def split: if_splits prod.splits outcome.splits)

lemma probCutStep_inCheck:
  "probCutStep P E S beta height (mp, c) = Inr (mp', c') \<Longrightarrow> cInCheck c' = cInCheck c"
  "probCutStep P E S beta height (mp, c) = Inl (Value (Inr c')) \<Longrightarrow> cInCheck c' = cInCheck c"
  by (auto simp: probCutStep_def Let_def split: if_splits prod.splits outcome.splits)

lemma probCut_inCheck:
  assumes "probCut P E S n c alpha beta height = Inr c'"
  shows "cInCheck c' = cInCheck c"
proof (cases "probCutApplies P c alpha beta")
  case False
  with assms show ?thesis by (simp add: probCut_def)
next
  case True
  let ?init = "(initNoisyMovePicker E (cThread c) (probCutBeta P beta - cEval c), c)"
  from assms True
  have loop: "loopFuel (probCutStep P E S beta height) n ?init = Value (Inr c')"
    by (auto simp: probCut_def split: outcome.splits sum.splits)
  have init: "cInCheck (snd ?init) = cInCheck c" by simp
  have step: "\<And>s s'. cInCheck (snd s) = cInCheck c \<Longrightarrow>
      probCutStep P E S beta height s = Inr s' \<Longrightarrow> cInCheck (snd s') = cInCheck c"
  proof -
    fix s s' :: "'b \<times> 'a searchCtx"
    assume a: "cInCheck (snd s) = cInCheck c" "probCutStep P E S beta height s = Inr s'"
    obtain mp x where s: "s = (mp, x)" by (cases s)
    obtain mp' x' where s': "s' = (mp', x')" by (cases s')
    from probCutStep_inCheck(1) [of P E S beta height mp x mp' x'] a s s'
    show "cInCheck (snd s') = cInCheck c" by simp
  qed
  have fin: "\<And>s r. cInCheck (snd s) = cInCheck c \<Longrightarrow>
      probCutStep P E S beta height s = Inl (Value r) \<Longrightarrow>
      (case r of Inl x \<Rightarrow> True | Inr c'' \<Rightarrow> cInCheck c'' = cInCheck c)"
  proof -
    fix s :: "'b \<times> 'a searchCtx" and r :: "(int \<times> move list \<times> 'a Thread) + 'a searchCtx"
    assume a: "cInCheck (snd s) = cInCheck c" "probCutStep P E S beta height s = Inl (Value r)"
    obtain mp x where s: "s = (mp, x)" by (cases s)
    show "case r of Inl x \<Rightarrow> True | Inr c'' \<Rightarrow> cInCheck c'' = cInCheck c"
    proof (cases r)
      case (Inl y)
      then show ?thesis by simp
    next
      case (Inr c'')
      with probCutStep_inCheck(2) [of P E S beta height mp x c''] a s
      show ?thesis by simp
    qed
  qed
  from loopFuel_invariant [where I = "\<lambda>s. cInCheck (snd s) = cInCheck c"
      and Q = "\<lambda>r. case r of Inl x \<Rightarrow> True | Inr c'' \<Rightarrow> cInCheck c'' = cInCheck c",
      OF loop init step fin]
  show ?thesis by simp
qed

lemma searchBeforeLoop_inCheck:
  assumes "searchBeforeLoop P E Q S n th alpha beta depth height = Inr c"
  shows "cInCheck c = (kingAttackers (board th) \<noteq> 0)"
proof -
  from assms obtain th1 d c1 c2 c3 where
    1: "searchEarlyExits P E Q th alpha beta depth height = Inr (th1, d)" and
    2: "searchProbe P E th1 alpha beta d height = Inr c1" and
    3: "searchStaticPruning P Q c1 alpha beta height = Inr c2" and
    4: "nullMovePruning P E S c2 alpha beta height = Inr c3" and
    5: "probCut P E S n c3 alpha beta height = Inr c"
    by (auto simp: searchBeforeLoop_def searchBeforeMoves_def split: sum.splits prod.splits)
  from 3 have "c2 = c1"
    by (auto simp: searchStaticPruning_def Let_def split: if_splits)
  with searchEarlyExits_board [OF 1] searchProbe_inCheck [OF 2]
       nullMovePruning_inCheck [OF 4] probCut_inCheck [OF 5]
  show ?thesis by simp
qed

text \<open>
  Claim C4. When \<^verbatim>\<open>search\<close> gets to the move loop and the loop ends with no move
  played, \<^verbatim>\<open>search\<close> returns \<open>-MATE + height\<close> if the side to move is in check (the
  bitboard \<^verbatim>\<open>kingAttackers\<close> of the board it was called on is not empty) and 0 otherwise.
  In that case \<^verbatim>\<open>best\<close> never rose above \<open>MATED_IN_MAX\<close>, so steps 12 and 13 pruned no
  move and \<^verbatim>\<open>skipQuiets\<close> was never set.
\<close>

theorem no_move_played:
  assumes ply: "0 \<le> MAX_PLY P"
      and before: "searchBeforeLoop P E (qsearch P E n) (search P G E n) n th alpha beta depth height
                     = Inr c"
      and loop: "mainLoop P G E (search P G E n) n c alpha beta height = Value st"
      and none: "mPlayed st = 0"
  shows "search P G E (Suc n) th alpha beta depth height
           = Value (if kingAttackers (board th) \<noteq> 0 then - MATE P + height else 0, [],
                    mThread st)
         \<and> mPruned st = 0 \<and> \<not> mSkipQuiets st \<and> \<not> mBest st > MATED_IN_MAX P"
proof -
  from mainLoop_pvInv [OF loop] none have pv: "mPv st = []"
    by (simp add: pvInv_def)
  from mainLoop_freshInv [OF ply loop] none
  have fresh: "mBest st = - MATE P" "mPruned st = 0" "\<not> mSkipQuiets st"
    by (simp_all add: freshInv_def)
  from fresh(1) ply have "\<not> mBest st > MATED_IN_MAX P"
    by (simp add: MATED_IN_MAX_def MATE_IN_MAX_def)
  moreover have "search P G E (Suc n) th alpha beta depth height
           = Value (if kingAttackers (board th) \<noteq> 0 then - MATE P + height else 0, [],
                    mThread st)"
    using before loop none pv searchBeforeLoop_inCheck [OF before]
    by (simp add: searchBody_def searchFinish_def)
  ultimately show ?thesis using fresh by simp
qed

lemma searchBeforeLoop_window:
  assumes "searchBeforeLoop P E Q S n th alpha beta depth height = Inr c"
      and "height \<noteq> 0"
  shows "alpha < beta"
proof -
  from assms(1) obtain th1 d where
    1: "searchEarlyExits P E Q th alpha beta depth height = Inr (th1, d)"
    by (auto simp: searchBeforeLoop_def searchBeforeMoves_def split: sum.splits prod.splits)
  with assms(2) have "mateAlpha P alpha height < mateBeta P beta height"
    by (auto simp: searchEarlyExits_def Let_def split: if_splits prod.splits)
  moreover have "alpha \<le> mateAlpha P alpha height" by (simp add: mateAlpha_def)
  moreover have "mateBeta P beta height \<le> beta" by (simp add: mateBeta_def)
  ultimately show ?thesis by linarith
qed

section \<open>Properties of the aspiration window\<close>

text \<open>
  \<^verbatim>\<open>aspirationWindow\<close> is the only caller of \<^verbatim>\<open>search\<close> at the root. With \<open>MATE\<close> and
  \<open>WindowSize\<close> positive and the last value inside \<open>[-MATE, MATE]\<close>, the window of its
  first pass is not empty, and no pass leaves an empty window to the next.
\<close>

lemma cdiv_half_between:
  assumes "a < b"
  shows "a \<le> cdiv (a + b) 2" "cdiv (a + b) 2 \<le> b" "a + b < 0 \<Longrightarrow> a < cdiv (a + b) 2"
  using assms by (auto simp: cdiv_def) 

lemma cdiv_half_nonneg: "0 < d \<Longrightarrow> 0 \<le> cdiv d 2"
  by (simp add: cdiv_def)

lemma aspirationInit_window:
  assumes "0 < MATE P" "0 < WindowSize P" "- MATE P \<le> lastValue" "lastValue \<le> MATE P"
  shows "windowInv P (aspirationInit P th depth lastValue)"
  using assms by (auto simp: windowInv_def aspirationInit_def)

lemma aspirationStep_window:
  assumes mate: "0 < MATE P"
      and inv: "windowInv P st"
      and step: "aspirationStep P E S depth st = Inr st'"
  shows "windowInv P st'"
proof -
  from step obtain val pv th where S: "S (wThread st) (wAlpha st) (wBeta st) depth 0 = Value (val, pv, th)"
    by (cases "S (wThread st) (wAlpha st) (wBeta st) depth 0")
       (auto simp: aspirationStep_def)
  with step have
    a: "wAlpha st' = (if val \<le> wAlpha st then max (- MATE P) (wAlpha st - wDelta st) else wAlpha st)"
    and b: "wBeta st' = (let beta1 = (if val \<le> wAlpha st then cdiv (wAlpha st + wBeta st) 2 else wBeta st)
                    in if val \<ge> beta1 then min (MATE P) (beta1 + wDelta st) else beta1)"
    and d: "wDelta st' = wDelta st + cdiv (wDelta st) 2"
    by (auto simp: aspirationStep_def Let_def split: if_splits)
  from inv have i: "- MATE P \<le> wAlpha st" "wAlpha st < wBeta st" "wBeta st \<le> MATE P" "0 < wDelta st"
    by (simp_all add: windowInv_def)
  note h = cdiv_half_between [OF i(2)]
  have d': "0 < wDelta st'" using d i(4) cdiv_half_nonneg [OF i(4)] by simp
  have "wAlpha st = cdiv (wAlpha st + wBeta st) 2 \<Longrightarrow> 0 \<le> wAlpha st"
    using h(3) i(2) by (cases "wAlpha st + wBeta st < 0") (auto simp: cdiv_def)
  then have low: "max (- MATE P) (wAlpha st - wDelta st) < cdiv (wAlpha st + wBeta st) 2"
    using h(1) i mate by (cases "wAlpha st = cdiv (wAlpha st + wBeta st) 2") auto
  show ?thesis
    unfolding windowInv_def a b Let_def
    using i h low d' mate by auto
qed

section \<open>Properties of the table store\<close>

text \<open>
  Claim C2. When \<^verbatim>\<open>search\<close> gets to step 20 (the move loop ended with a move played), it
  stores \<open>valueToTT(best, height)\<close> with the bound \<open>LOWER\<close> if \<open>best \<ge> beta\<close>, \<open>EXACT\<close> if
  \<open>beta > best > oldAlpha\<close> and \<open>UPPER\<close> if \<open>best \<le> oldAlpha\<close>, and returns \<open>best\<close>. Away
  from the root the window is not empty at this point, since mate-distance pruning
  returns otherwise; at the root the window is not empty by \<open>aspirationInit_window\<close> and
  \<open>aspirationStep_window\<close>, and the theorem assumes it.
\<close>

theorem table_store_bound:
  assumes before: "searchBeforeLoop P E (qsearch P E n) (search P G E n) n th alpha beta depth height
                     = Inr c"
      and loop: "mainLoop P G E (search P G E n) n c alpha beta height = Value st"
      and played: "mPlayed st > 0"
      and window: "height = 0 \<longrightarrow> alpha < beta"
      and th': "th' = (if mBest st \<ge> beta \<and> \<not> moveIsTactical G (board (mThread st)) (mBestMove st)
                       then updateHistoryHeuristics E (mThread st) (mQuietsTried st) (mQuiets st)
                              height (cDepth c * cDepth c)
                       else mThread st)"
      and b: "b = (if mBest st \<ge> beta then BOUND_LOWER
                   else if mBest st > alpha then BOUND_EXACT else BOUND_UPPER)"
  shows "search P G E (Suc n) th alpha beta depth height
           = Value (mBest st, mPv st,
                    storeTTEntry E th' (hash (board th')) (mBestMove st)
                      (valueToTT P (mBest st) height) (cEval c) (cDepth c) b)
         \<and> (mBest st \<ge> beta \<longrightarrow> b = BOUND_LOWER)
         \<and> (beta > mBest st \<and> mBest st > alpha \<longrightarrow> b = BOUND_EXACT)
         \<and> (mBest st \<le> alpha \<longrightarrow> b = BOUND_UPPER)"
proof -
  have w: "alpha < beta"
    using window searchBeforeLoop_window [OF before] by blast
  have "search P G E (Suc n) th alpha beta depth height
           = Value (mBest st, mPv st,
                    storeTTEntry E th' (hash (board th')) (mBestMove st)
                      (valueToTT P (mBest st) height) (cEval c) (cDepth c) b)"
    using before loop played
    by (simp add: searchBody_def searchFinish_def Let_def storedBound_def th' b)
  with w show ?thesis by (simp add: b)
qed


section \<open>Properties of the principal variation\<close>

lemma qsearchStep_inv:
  assumes "qsearchInv a st"
  shows "(qsearchStep E Q beta height st = Inr st' \<longrightarrow> qsearchInv a st')
       \<and> (qsearchStep E Q beta height st = Inl (Value (v, pv, th')) \<longrightarrow> pv \<noteq> [] \<longrightarrow> a < v)"
  using assms
  by (auto simp: qsearchStep_def qsearchInv_def Let_def
           split: prod.splits if_splits outcome.splits)

lemma qsearch_pv:
  assumes "qsearch P E n th alpha beta height = Value (v, pv, th')" and "pv \<noteq> []"
  shows "alpha < v"
proof (cases n)
  case 0
  with assms show ?thesis by simp
next
  case (Suc k)
  let ?th = "th\<lparr>seldepth := max (seldepth th) height, nodes := nodes th + 1\<rparr>"
  let ?tt = "getTTEntry E ?th (hash (board ?th))"
  obtain eval th2 where se: "staticEval P E ?tt ?th = (eval, th2)"
    by (cases "staticEval P E ?tt ?th")
  let ?margin = "max alpha eval - eval - QFutilityMargin P"
  let ?init = "\<lparr> qPicker = initNoisyMovePicker E th2 (max (QSEEMargin P) ?margin),
                 qThread = th2, qAlpha = max alpha eval, qBest = eval,
                 qPv = [], qLpv = [] \<rparr>"
  from assms Suc se
  have loop: "loopFuel (qsearchStep E (qsearch P E k) beta height) k ?init = Value (v, pv, th')"
    by (auto simp: qsearchBody_def Let_def split: if_splits prod.splits option.splits)
  have init: "qsearchInv alpha ?init" by (simp add: qsearchInv_def)
  have step: "\<And>s s'. qsearchInv alpha s \<Longrightarrow>
      qsearchStep E (qsearch P E k) beta height s = Inr s' \<Longrightarrow> qsearchInv alpha s'"
    using qsearchStep_inv by blast
  have fin: "\<And>s r. qsearchInv alpha s \<Longrightarrow>
      qsearchStep E (qsearch P E k) beta height s = Inl (Value r) \<Longrightarrow>
      fst (snd r) \<noteq> [] \<longrightarrow> alpha < fst r"
  proof -
    fix s and r :: "int \<times> move list \<times> 'a Thread"
    assume "qsearchInv alpha s" "qsearchStep E (qsearch P E k) beta height s = Inl (Value r)"
    then show "fst (snd r) \<noteq> [] \<longrightarrow> alpha < fst r"
      using qsearchStep_inv [of alpha s E "qsearch P E k" beta height _ "fst r" "fst (snd r)"
          "snd (snd r)"]
      by simp
  qed
  from loopFuel_invariant [where I = "qsearchInv alpha"
      and Q = "\<lambda>r. fst (snd r) \<noteq> [] \<longrightarrow> alpha < fst r", OF loop init step fin]
  have "pv \<noteq> [] \<longrightarrow> alpha < v" by simp
  with assms(2) show ?thesis by simp
qed


lemma probCutStep_pv:
  "probCutStep P E S beta height pc = Inl (Value (Inl (v, pv, th'))) \<Longrightarrow> pv = []"
  by (auto simp: probCutStep_def Let_def split: prod.splits if_splits outcome.splits)

lemma probCut_pv:
  assumes "probCut P E S n c alpha beta height = Inl (Value (v, pv, th'))"
  shows "pv = []"
proof -
  let ?init = "(initNoisyMovePicker E (cThread c) (probCutBeta P beta - cEval c), c)"
  from assms have loop: "loopFuel (probCutStep P E S beta height) n ?init = Value (Inl (v, pv, th'))"
    by (auto simp: probCut_def split: if_splits outcome.splits sum.splits)
  have fin: "\<And>s r. True \<Longrightarrow> probCutStep P E S beta height s = Inl (Value r) \<Longrightarrow>
               (case r of Inl (v, pv, th) \<Rightarrow> pv = [] | Inr c \<Rightarrow> True)"
    using probCutStep_pv by (auto split: sum.splits)
  from loopFuel_invariant [where I = "\<lambda>s. True"
      and Q = "\<lambda>r. case r of Inl (v, pv, th) \<Rightarrow> pv = [] | Inr c \<Rightarrow> True", OF loop _ _ fin]
  show ?thesis by simp
qed

lemma searchBeforeLoop_pv:
  assumes "searchBeforeLoop P E (qsearch P E k) S n th alpha beta depth height
             = Inl (Value (v, pv, th'))"
      and "pv \<noteq> []"
  shows "alpha < v"
proof -
  have q: "\<And>t. qsearch P E k t alpha beta height = Value (v, pv, th') \<Longrightarrow> alpha < v"
    using qsearch_pv assms(2) by blast
  show ?thesis
  proof (cases "searchEarlyExits P E (qsearch P E k) th alpha beta depth height")
    case (Inl r)
    with assms(1) have "r = Value (v, pv, th')"
      by (simp add: searchBeforeLoop_def searchBeforeMoves_def)
    with Inl assms(2) q show ?thesis
      by (auto simp: searchEarlyExits_def Let_def split: if_splits prod.splits)
  next
    case (Inr x)
    obtain th1 d where x: "x = (th1, d)" by (cases x)
    show ?thesis
    proof (cases "searchProbe P E th1 alpha beta d height")
      case (Inl r)
      with assms(1) Inr x have "r = Value (v, pv, th')"
        by (simp add: searchBeforeLoop_def searchBeforeMoves_def)
      with Inl assms(2) show ?thesis
        by (auto simp: searchProbe_def Let_def split: if_splits prod.splits)
    next
      case c1: (Inr c1)
      show ?thesis
      proof (cases "searchStaticPruning P (qsearch P E k) c1 alpha beta height")
        case (Inl r)
        with assms(1) Inr x c1 have "r = Value (v, pv, th')"
          by (simp add: searchBeforeLoop_def searchBeforeMoves_def)
        with Inl assms(2) q show ?thesis
          by (auto simp: searchStaticPruning_def Let_def split: if_splits)
      next
        case c2: (Inr c2)
        show ?thesis
        proof (cases "nullMovePruning P E S c2 alpha beta height")
          case (Inl r)
          with assms(1) Inr x c1 c2 have "r = Value (v, pv, th')"
            by (simp add: searchBeforeLoop_def searchBeforeMoves_def)
          with Inl assms(2) show ?thesis
            by (auto simp: nullMovePruning_def Let_def
                     split: if_splits prod.splits outcome.splits)
        next
          case c3: (Inr c3)
          with assms(1) Inr x c1 c2
          have "probCut P E S n c3 alpha beta height = Inl (Value (v, pv, th'))"
            by (simp add: searchBeforeLoop_def searchBeforeMoves_def)
          from probCut_pv [OF this] assms(2) show ?thesis by simp
        qed
      qed
    qed
  qed
qed

lemma search_pv:
  assumes "search P G E n th alpha beta depth height = Value (v, pv, th')" and "pv \<noteq> []"
  shows "alpha < v"
proof (cases n)
  case 0
  with assms show ?thesis by simp
next
  case (Suc k)
  show ?thesis
  proof (cases "searchBeforeLoop P E (qsearch P E k) (search P G E k) k th alpha beta depth height")
    case (Inl r)
    with assms(1) Suc have "r = Value (v, pv, th')" by (simp add: searchBody_def)
    with Inl searchBeforeLoop_pv assms(2) show ?thesis by blast
  next
    case (Inr c)
    with assms(1) Suc obtain st where
      loop: "mainLoop P G E (search P G E k) k c alpha beta height = Value st" and
      fin: "searchFinish P G E c alpha beta height st = Value (v, pv, th')"
      by (auto simp: searchBody_def split: outcome.splits)
    from mainLoop_pvInv [OF loop] have inv: "pvInv alpha st" .
    from fin assms(2) inv show ?thesis
      by (auto simp: searchFinish_def Let_def pvInv_def split: if_splits)
  qed
qed

text \<open>
  Claim C8. Whenever \<^verbatim>\<open>search\<close> or \<^verbatim>\<open>qsearch\<close> returns, the variation it leaves is empty
  unless the value returned is above the \<open>alpha\<close> it was called with.
\<close>

theorem pv_only_above_alpha:
  "(search P G E n th alpha beta depth height = Value (v, pv, th') \<and> pv \<noteq> [] \<longrightarrow> alpha < v)
   \<and> (qsearch P E n th alpha beta height = Value (v, pv, th') \<and> pv \<noteq> [] \<longrightarrow> alpha < v)"
proof (intro conjI impI)
  assume "search P G E n th alpha beta depth height = Value (v, pv, th') \<and> pv \<noteq> []"
  then show "alpha < v" using search_pv by blast
next
  assume "qsearch P E n th alpha beta height = Value (v, pv, th') \<and> pv \<noteq> []"
  then show "alpha < v" using qsearch_pv by blast
qed


section \<open>Properties of the singular move verification\<close>

lemma singular_loop_idle:
  assumes "noOtherLegalMove E ttMove height k (sPicker st) (sThread st)" and "k \<le> n"
  shows "\<exists>st'. loopFuel (singularStep E S ttMove rBeta depth height) n st = Value st'
               \<and> sValue st' = sValue st"
  using assms
proof (induction k arbitrary: n st)
  case 0
  then show ?case by simp
next
  case (Suc k)
  from Suc.prems(2) obtain n' where n: "n = Suc n'" and le: "k \<le> n'"
    by (cases n) auto
  obtain m mp where sel: "selectNextMove E (sPicker st) (sThread st) False = (m, mp)"
    by (cases "selectNextMove E (sPicker st) (sThread st) False")
  show ?case
  proof (cases "m = NONE_MOVE E")
    case True
    with sel n show ?thesis by (simp add: singularStep_def)
  next
    case notnone: False
    show ?thesis
    proof (cases "m = ttMove")
      case True
      with notnone sel Suc.prems(1)
      have "noOtherLegalMove E ttMove height k (sPicker (st\<lparr>sPicker := mp\<rparr>))
              (sThread (st\<lparr>sPicker := mp\<rparr>))"
        by simp
      from Suc.IH [OF this le] True notnone sel n show ?thesis
        by (simp add: singularStep_def)
    next
      case False
      obtain legal th where ap: "applyMove E (sThread st) m height = (legal, th)"
        by (cases "applyMove E (sThread st) m height")
      from False notnone sel ap Suc.prems(1)
      have il: "\<not> legal" and
        "noOtherLegalMove E ttMove height k (sPicker (st\<lparr>sPicker := mp, sThread := th\<rparr>))
              (sThread (st\<lparr>sPicker := mp, sThread := th\<rparr>))"
        by simp_all
      from Suc.IH [OF this(2) le] il False notnone sel ap n show ?thesis
        by (simp add: singularStep_def)
    qed
  qed
qed

text \<open>
  Claim C10. When, after \<^verbatim>\<open>moveIsSingular\<close> has taken back the table move, the picker
  gives no legal move other than the table move, \<^verbatim>\<open>moveIsSingular\<close> returns 1, given as
  much fuel as the picker gives moves: the value stays at \<open>-MATE\<close>, which is not above
  \<open>rBeta = max(ttValue - depth, -MATE)\<close>.
\<close>

theorem singular_without_alternative:
  assumes th0: "th0 = revertMove E th ttMove height"
      and none: "noOtherLegalMove E ttMove height k (initMovePicker E th0 (NONE_MOVE E) height) th0"
      and fuel: "k \<le> n"
  shows "\<exists>th'. moveIsSingular P E S n th ttMove ttValue depth height = Value (True, th')"
proof -
  let ?rBeta = "max (ttValue - depth) (- MATE P)"
  let ?init = "\<lparr> sPicker = initMovePicker E th0 (NONE_MOVE E) height, sThread = th0,
                  sValue = - MATE P, sLpv = [] \<rparr>"
  from none have "noOtherLegalMove E ttMove height k (sPicker ?init) (sThread ?init)"
    by simp
  from singular_loop_idle [OF this fuel, of S ?rBeta depth]
  obtain st' where loop: "loopFuel (singularStep E S ttMove ?rBeta depth height) n ?init = Value st'"
    and val: "sValue st' = - MATE P"
    by auto
  obtain legal th' where ap: "applyMove E (sThread st') ttMove height = (legal, th')"
    by (cases "applyMove E (sThread st') ttMove height")
  have "moveIsSingular P E S n th ttMove ttValue depth height = Value (True, th')"
    using loop val ap by (simp add: moveIsSingular_def Let_def th0)
  then show ?thesis ..
qed

theorem singular_without_alternative_witness:
  "\<exists>th'. moveIsSingular sampleParams sampleExtern (search sampleParams sampleLib sampleExtern 3)
           2 sampleThread 2243 50 8 1 = Value (True, th')"
proof -
  have 1: "sampleThread = revertMove sampleExtern sampleThread 2243 1"
    by (simp add: sampleExtern_def)
  have 2: "noOtherLegalMove sampleExtern 2243 1 2
             (initMovePicker sampleExtern sampleThread (NONE_MOVE sampleExtern) 1) sampleThread"
    by code_simp
  have 3: "(2::nat) \<le> 2" by simp
  from singular_without_alternative [OF 1 2 3] show ?thesis .
qed


section \<open>Sample runs of the search\<close>

lemma root_before: "searchBeforeLoop sampleParams sampleExtern (qsearch sampleParams sampleExtern 4)
     (search sampleParams sampleLib sampleExtern 4) 4 sampleThread (- 10) 10 1 0 = Inr rootCtx"
proof -
  have "\<not> isl (searchBeforeLoop sampleParams sampleExtern (qsearch sampleParams sampleExtern 4)
     (search sampleParams sampleLib sampleExtern 4) 4 sampleThread (- 10) 10 1 0)"
    by code_simp
  then show ?thesis by (simp add: rootCtx_def)
qed

lemma root_loop: "mainLoop sampleParams sampleLib sampleExtern
    (search sampleParams sampleLib sampleExtern 4) 4 rootCtx (- 10) 10 0 = Value rootFinal"
proof -
  have "is_Value (mainLoop sampleParams sampleLib sampleExtern
    (search sampleParams sampleLib sampleExtern 4) 4 rootCtx (- 10) 10 0)"
    by code_simp
  then show ?thesis by (simp add: rootFinal_def)
qed

lemma inner_before: "searchBeforeLoop sampleParams sampleExtern (qsearch sampleParams sampleExtern 4)
     (search sampleParams sampleLib sampleExtern 4) 4 sampleThread (- 10) 10 1 1 = Inr innerCtx"
proof -
  have "\<not> isl (searchBeforeLoop sampleParams sampleExtern (qsearch sampleParams sampleExtern 4)
     (search sampleParams sampleLib sampleExtern 4) 4 sampleThread (- 10) 10 1 1)"
    by code_simp
  then show ?thesis by (simp add: innerCtx_def)
qed

lemma inner_loop: "mainLoop sampleParams sampleLib sampleExtern
    (search sampleParams sampleLib sampleExtern 4) 4 innerCtx (- 10) 10 1 = Value innerFinal"
proof -
  have "is_Value (mainLoop sampleParams sampleLib sampleExtern
    (search sampleParams sampleLib sampleExtern 4) 4 innerCtx (- 10) 10 1)"
    by code_simp
  then show ?thesis by (simp add: innerFinal_def)
qed

theorem table_store_bound_witness:
  "search sampleParams sampleLib sampleExtern (Suc 4) sampleThread (- 10) 10 1 0
     = Value (mBest rootFinal, mPv rootFinal,
              storeTTEntry sampleExtern (mThread rootFinal) (hash (board (mThread rootFinal)))
                (mBestMove rootFinal) (valueToTT sampleParams (mBest rootFinal) 0)
                (cEval rootCtx) (cDepth rootCtx) BOUND_EXACT)
   \<and> 10 > mBest rootFinal \<and> mBest rootFinal > - 10 \<and> mPlayed rootFinal > 0"
proof -
  have 1: "mPlayed rootFinal > 0" by code_simp
  have 2: "(0::int) = 0 \<longrightarrow> (- 10::int) < 10" by simp
  have 3: "mThread rootFinal =
       (if mBest rootFinal \<ge> 10
           \<and> \<not> moveIsTactical sampleLib (board (mThread rootFinal)) (mBestMove rootFinal)
        then updateHistoryHeuristics sampleExtern (mThread rootFinal) (mQuietsTried rootFinal)
               (mQuiets rootFinal) 0 (cDepth rootCtx * cDepth rootCtx)
        else mThread rootFinal)"
    by (simp add: sampleExtern_def)
  have 4: "10 > mBest rootFinal" by code_simp
  have 5: "mBest rootFinal > - 10" by code_simp
  from 4 5 have 6: "BOUND_EXACT = (if mBest rootFinal \<ge> 10 then BOUND_LOWER
                   else if mBest rootFinal > - 10 then BOUND_EXACT else BOUND_UPPER)"
    by simp
  from table_store_bound [OF root_before root_loop 1 2 3 6] 1 4 5
  show ?thesis by blast
qed

lemma check_before: "searchBeforeLoop sampleParams sampleExtern (qsearch sampleParams sampleExtern 4)
     (search sampleParams sampleLib sampleExtern 4) 4 checkThread (- 10) 10 1 1 = Inr checkCtx"
proof -
  have "\<not> isl (searchBeforeLoop sampleParams sampleExtern (qsearch sampleParams sampleExtern 4)
     (search sampleParams sampleLib sampleExtern 4) 4 checkThread (- 10) 10 1 1)"
    by code_simp
  then show ?thesis by (simp add: checkCtx_def)
qed

lemma check_loop: "mainLoop sampleParams sampleLib sampleExtern
    (search sampleParams sampleLib sampleExtern 4) 4 checkCtx (- 10) 10 1 = Value checkFinal"
proof -
  have "is_Value (mainLoop sampleParams sampleLib sampleExtern
    (search sampleParams sampleLib sampleExtern 4) 4 checkCtx (- 10) 10 1)"
    by code_simp
  then show ?thesis by (simp add: checkFinal_def)
qed

theorem no_move_played_witness:
  "search sampleParams sampleLib sampleExtern (Suc 4) sampleThread (- 10) 10 1 1
     = Value (0, [], mThread innerFinal)
   \<and> mPlayed innerFinal = 0 \<and> mPruned innerFinal = 0 \<and> \<not> mSkipQuiets innerFinal
   \<and> search sampleParams sampleLib sampleExtern (Suc 4) checkThread (- 10) 10 1 1
     = Value (- 31999, [], mThread checkFinal)
   \<and> mPlayed checkFinal = 0 \<and> mPruned checkFinal = 0 \<and> \<not> mSkipQuiets checkFinal"
proof -
  have 1: "0 \<le> MAX_PLY sampleParams" by (simp add: sampleParams_def)
  have 2: "mPlayed innerFinal = 0" by code_simp
  have 3: "kingAttackers (board sampleThread) = 0"
    by (simp add: sampleThread_def exchangeBoard_def)
  have 4: "mPlayed checkFinal = 0" by code_simp
  have 5: "kingAttackers (board checkThread) \<noteq> 0"
    by (simp add: checkThread_def)
  have 6: "- MATE sampleParams + 1 = - 31999" by (simp add: sampleParams_def)
  from no_move_played [OF 1 inner_before inner_loop 2] 2 3
  have a: "search sampleParams sampleLib sampleExtern (Suc 4) sampleThread (- 10) 10 1 1
             = Value (0, [], mThread innerFinal)
           \<and> mPlayed innerFinal = 0 \<and> mPruned innerFinal = 0 \<and> \<not> mSkipQuiets innerFinal"
    by simp
  from no_move_played [OF 1 check_before check_loop 4] 4 5 6
  have b: "search sampleParams sampleLib sampleExtern (Suc 4) checkThread (- 10) 10 1 1
             = Value (- 31999, [], mThread checkFinal)
           \<and> mPlayed checkFinal = 0 \<and> mPruned checkFinal = 0 \<and> \<not> mSkipQuiets checkFinal"
    by simp
  from a b show ?thesis by blast
qed

theorem null_move_fail_hard_witness:
  "search sampleParams sampleLib sampleExtern (Suc 3) sampleThread (- 1) 0 9 2
     = Value (0, [], revertMove sampleExtern (snd (snd nullChild)) (NULL_MOVE sampleExtern) 2)"
proof -
  have b: "\<not> isl (searchBeforeMoves sampleParams sampleExtern (qsearch sampleParams sampleExtern 3)
                      sampleThread (- 1) 0 9 2)"
    by code_simp
  then have 1: "searchBeforeMoves sampleParams sampleExtern (qsearch sampleParams sampleExtern 3)
                      sampleThread (- 1) 0 9 2 = Inr nullCtx"
    by (simp add: nullCtx_def)
  have 2: "(- 1::int) = 0 - 1" by simp
  have 3: "\<not> cInCheck nullCtx" by code_simp
  have 4: "cDepth nullCtx \<ge> NullMovePruningDepth sampleParams" by code_simp
  have 5: "cEval nullCtx \<ge> 0" by code_simp
  have 6: "hasNonPawnMaterial (board (cThread nullCtx)) (turn (board (cThread nullCtx)))"
    by code_simp
  have 7: "moveStack (cThread nullCtx) (2 - 1) \<noteq> NULL_MOVE sampleExtern" by code_simp
  have 8: "moveStack (cThread nullCtx) (2 - 2) \<noteq> NULL_MOVE sampleExtern" by code_simp
  have 9: "\<not> cTtHit nullCtx \<or> \<not> hasUpper (cTtBound nullCtx) \<or> cTtValue nullCtx \<ge> 0"
    by code_simp
  have 10: "(5::int) = 4 + cDepth nullCtx div 6 + min 3 ((cEval nullCtx - 0) div 200)"
    by code_simp
  have 11: "applyMove sampleExtern (cThread nullCtx) (NULL_MOVE sampleExtern) 2
            = (True, cThread nullCtx)"
    by (simp add: sampleExtern_def)
  have "is_Value (search sampleParams sampleLib sampleExtern 3 (cThread nullCtx) (- 0)
                         (- 0 + 1) (cDepth nullCtx - 5) (2 + 1))"
    by code_simp
  then have 12: "search sampleParams sampleLib sampleExtern 3 (cThread nullCtx) (- 0)
                         (- 0 + 1) (cDepth nullCtx - 5) (2 + 1)
                 = Value (fst nullChild, fst (snd nullChild), snd (snd nullChild))"
    by (simp add: nullChild_def)
  have 13: "- fst nullChild \<ge> 0" by code_simp
  from null_move_fail_hard [OF 1 2 3 4 5 6 7 8 9 10 11 12 13]
  show ?thesis .
qed

theorem pv_only_above_alpha_witness:
  "fst (snd (result (search sampleParams sampleLib sampleExtern 5 sampleThread (- 10) 10 1 0))) \<noteq> []
   \<and> - 10 < fst (result (search sampleParams sampleLib sampleExtern 5 sampleThread (- 10) 10 1 0))
   \<and> fst (snd (result (qsearch sampleParams captureExtern 3 sampleThread (- 10) 10 0))) \<noteq> []
   \<and> - 10 < fst (result (qsearch sampleParams captureExtern 3 sampleThread (- 10) 10 0))"
proof -
  let ?s = "search sampleParams sampleLib sampleExtern 5 sampleThread (- 10) 10 1 0"
  let ?q = "qsearch sampleParams captureExtern 3 sampleThread (- 10) 10 0"
  have "is_Value ?s" by code_simp
  then have s: "?s = Value (fst (result ?s), fst (snd (result ?s)), snd (snd (result ?s)))"
    by simp
  have sp: "fst (snd (result ?s)) \<noteq> []" by code_simp
  have "is_Value ?q" by code_simp
  then have q: "?q = Value (fst (result ?q), fst (snd (result ?q)), snd (snd (result ?q)))"
    by simp
  have qp: "fst (snd (result ?q)) \<noteq> []" by code_simp
  from pv_only_above_alpha [of sampleParams sampleLib sampleExtern 5 sampleThread "- 10" 10 1 0
      "fst (result ?s)" "fst (snd (result ?s))" "snd (snd (result ?s))"] s sp
  have 1: "- 10 < fst (result ?s)" by blast
  from pv_only_above_alpha [of sampleParams sampleLib captureExtern 3 sampleThread "- 10" 10 1 0
      "fst (result ?q)" "fst (snd (result ?q))" "snd (snd (result ?q))"] q qp
  have 2: "- 10 < fst (result ?q)" by blast
  from 1 2 sp qp show ?thesis by blast
qed


end
